theory Spec2Isabelle
  imports Complex_Main "HOL-Library.Sublist"
begin

section \<open>Python values and exceptions used by the coordinator\<close>

text \<open>
  The coordinator of \<^verbatim>\<open>backend/main.py\<close> keeps a process-wide dictionary
  \<^verbatim>\<open>sessions\<close> and reacts to typed messages. Exceptions of the source are values of
  the type below; a handler that raises leaves the mutations it made before the raise.
\<close>

datatype py_error = ValueError | TypeError | KeyError | ValidationError

text \<open>
  JSON-like values: the entries of \<^verbatim>\<open>raw_search_results\<close> are plain \<^verbatim>\<open>dict\<close>s
  whose values are not typed by the message model. Floats are only stored and copied by
  the coordinator, never computed with; they are carried as reals.
\<close>

datatype pyval =
    VNone
  | VBool bool
  | VInt int
  | VFloat real
  | VStr string
  | VList "pyval list"
  | VDict "(string \<times> pyval) list"

type_synonym pydict = "string \<rightharpoonup> pyval"

text \<open>Python truthiness, as used by \<^verbatim>\<open>if address:\<close>.\<close>

fun truthy :: "pyval \<Rightarrow> bool" where
  "truthy VNone = False"
| "truthy (VBool b) = b"
| "truthy (VInt i) = (i \<noteq> 0)"
| "truthy (VFloat r) = (r \<noteq> 0)"
| "truthy (VStr s) = (s \<noteq> [])"
| "truthy (VList xs) = (xs \<noteq> [])"
| "truthy (VDict kvs) = (kvs \<noteq> [])"

section \<open>Correlation tokens\<close>

text \<open>
  Fan-out tags each geocoding request with \<^verbatim>\<open>f"{msg.session_id}__{idx}"\<close>
  (\<^verbatim>\<open>handle_research\<close>); the reply handler tests \<^verbatim>\<open>"__" in msg.session_id\<close>,
  splits with \<^verbatim>\<open>split("__", 1)\<close> and converts the second part with \<^verbatim>\<open>int\<close>
  (\<^verbatim>\<open>handle_mapbox\<close>).
\<close>

definition digit_char :: "nat \<Rightarrow> char" where
  "digit_char d = ''0123456789'' ! d"

fun str_nat :: "nat \<Rightarrow> string" where
  "str_nat n = (if n < 10 then [digit_char n] else str_nat (n div 10) @ [digit_char (n mod 10)])"

declare str_nat.simps [simp del]

definition encode_token :: "string \<Rightarrow> nat \<Rightarrow> string" where
  "encode_token session_id idx = session_id @ ''__'' @ str_nat idx"

text \<open>\<^verbatim>\<open>"__" in s\<close>\<close>

fun has_sep :: "string \<Rightarrow> bool" where
  "has_sep (c # d # cs) = ((c = CHR ''_'' \<and> d = CHR ''_'') \<or> has_sep (d # cs))"
| "has_sep _ = False"

text \<open>
  \<^verbatim>\<open>s.split("__", 1)\<close>: the parts before and after the first occurrence of the
  separator, \<open>None\<close> when the separator does not occur (Python returns a one-element list).
\<close>

fun split_sep :: "string \<Rightarrow> (string \<times> string) option" where
  "split_sep (c # d # cs) =
     (if c = CHR ''_'' \<and> d = CHR ''_'' then Some ([], cs)
      else (case split_sep (d # cs) of
              None \<Rightarrow> None
            | Some (a, b) \<Rightarrow> Some (c # a, b)))"
| "split_sep _ = None"

text \<open>
  \<^verbatim>\<open>int(s)\<close> on a string, base 10: surrounding whitespace is stripped, one sign is
  allowed, digits may be grouped by single underscores, and a text of more than 4300
  digits is refused (the default \<^verbatim>\<open>sys.get_int_max_str_digits()\<close>). A character of the
  model is a code point below 256. Among these \<^verbatim>\<open>int\<close> strips the six ASCII
  whitespace characters, U+0085 and U+00A0 (not U+001C to U+001F, which
  \<^verbatim>\<open>str.strip\<close> would remove), and reads only the digits \<^verbatim>\<open>0\<close> to \<^verbatim>\<open>9\<close>. The
  whitespace and decimal digits that Unicode has from code point 256 on are outside the
  character type.
\<close>

definition digit_val :: "char \<Rightarrow> nat option" where
  "digit_val c =
     (let code = (of_char c :: nat)
      in if 48 \<le> code \<and> code \<le> 57 then Some (code - 48) else None)"

definition is_space :: "char \<Rightarrow> bool" where
  "is_space c = (c \<in> set [CHR '' '', CHR 0x09, CHR 0x0A, CHR 0x0B, CHR 0x0C, CHR 0x0D,
                           CHR 0x85, CHR 0xA0])"

definition strip :: "string \<Rightarrow> string" where
  "strip s = rev (dropWhile is_space (rev (dropWhile is_space s)))"

fun parse_digits :: "nat \<Rightarrow> string \<Rightarrow> nat option" where
  "parse_digits acc [] = Some acc"
| "parse_digits acc [c] =
     (case digit_val c of None \<Rightarrow> None | Some v \<Rightarrow> Some (acc * 10 + v))"
| "parse_digits acc (c # d # cs) =
     (if c = CHR ''_''
      then (case digit_val d of None \<Rightarrow> None | Some v \<Rightarrow> parse_digits (acc * 10 + v) cs)
      else (case digit_val c of None \<Rightarrow> None | Some v \<Rightarrow> parse_digits (acc * 10 + v) (d # cs)))"

definition max_str_digits :: nat where
  "max_str_digits = 4300"

definition parse_unsigned :: "string \<Rightarrow> nat option" where
  "parse_unsigned s =
     (if length (filter (\<lambda>c. digit_val c \<noteq> None) s) > max_str_digits then None
      else (case s of
              [] \<Rightarrow> None
            | c # cs \<Rightarrow> (case digit_val c of None \<Rightarrow> None | Some v \<Rightarrow> parse_digits v cs)))"

definition py_int :: "string \<Rightarrow> int option" where
  "py_int s =
     (case strip s of
        [] \<Rightarrow> None
      | c # cs \<Rightarrow>
          if c = CHR ''-'' then map_option (\<lambda>n. - int n) (parse_unsigned cs)
          else if c = CHR ''+'' then map_option int (parse_unsigned cs)
          else map_option int (parse_unsigned (c # cs)))"

datatype token = Composite string int | Plain string

text \<open>
  The head of \<^verbatim>\<open>handle_mapbox\<close>: a token with the separator is split and its index
  converted (\<^verbatim>\<open>ValueError\<close> when \<^verbatim>\<open>int\<close> rejects the text); any other token is a plain
  session key.
\<close>

definition decode_token :: "string \<Rightarrow> py_error + token" where
  "decode_token session_id =
     (if has_sep session_id
      then (case split_sep session_id of
              None \<Rightarrow> Inl ValueError
            | Some (base_session_id, idx_str) \<Rightarrow>
                (case py_int idx_str of
                   None \<Rightarrow> Inl ValueError
                 | Some idx \<Rightarrow> Inr (Composite base_session_id idx)))
      else Inr (Plain session_id))"

section \<open>Messages\<close>

text \<open>The message models of \<^verbatim>\<open>agents/models.py\<close>; field names carry a prefix where two
  models share a name.\<close>

record user_requirements =
  budget_min :: "int option"
  budget_max :: "int option"
  bedrooms :: "int option"
  bathrooms :: "real option"
  location :: string
  additional_info :: "string option"

record property_listing =
  pl_address :: string
  pl_city :: string
  pl_price :: "int option"
  pl_bedrooms :: "int option"
  pl_bathrooms :: "real option"
  pl_sqft :: "int option"
  pl_latitude :: "real option"
  pl_longitude :: "real option"
  pl_description :: "string option"
  pl_url :: "string option"
  pl_image_url :: "string option"

record scoping_response =
  agent_message :: string
  is_complete :: bool
  sc_session_id :: string
  requirements :: "user_requirements option"
  is_general_question :: bool
  general_question :: "string option"

text \<open>\<^verbatim>\<open>result_images\<close> is declared \<^verbatim>\<open>Optional[List[dict]]\<close> (documented as entries
  \<^verbatim>\<open>{"index": int, "image_url": str}\<close>); its entries are plain dictionaries.\<close>

record research_response =
  properties :: "property_listing list"
  search_summary :: string
  total_found :: int
  rs_session_id :: string
  raw_search_results :: "pydict list option"
  top_result_image_url :: "string option"
  result_images :: "pydict list option"

record general_response =
  answer :: string
  gn_session_id :: string

record mapbox_response =
  mb_address :: string
  mb_latitude :: real
  mb_longitude :: real
  mb_session_id :: string
  mb_error :: "string option"
  mb_image_url :: "string option"

record poi =
  poi_name :: string
  poi_category :: string
  poi_latitude :: real
  poi_longitude :: real
  poi_address :: "string option"
  poi_distance_meters :: "int option"

record local_discovery_response =
  pois :: "poi list"
  ld_session_id :: string
  listing_index :: int

text \<open>\<^verbatim>\<open>poi.dict()\<close>\<close>

definition poi_dict :: "poi \<Rightarrow> pyval" where
  "poi_dict p = VDict
     [(''name'', VStr (poi_name p)), (''category'', VStr (poi_category p)),
      (''latitude'', VFloat (poi_latitude p)), (''longitude'', VFloat (poi_longitude p)),
      (''address'', (case poi_address p of None \<Rightarrow> VNone | Some a \<Rightarrow> VStr a)),
      (''distance_meters'', (case poi_distance_meters p of None \<Rightarrow> VNone | Some d \<Rightarrow> VInt d))]"

text \<open>Replies the coordinator receives, one constructor per \<^verbatim>\<open>on_message\<close> handler.\<close>

datatype reply =
    ScopingResponse scoping_response
  | ResearchResponse research_response
  | GeneralResponse general_response
  | MapboxResponse mapbox_response
  | LocalDiscoveryResponse local_discovery_response

text \<open>Requests the coordinator sends with \<^verbatim>\<open>ctx.send\<close>; the constructor fixes the
  destination worker. The last argument of the first four is \<^verbatim>\<open>session_id\<close>;
  \<open>LocalDiscoveryRequest\<close> is latitude, longitude, \<^verbatim>\<open>session_id\<close>,
  \<^verbatim>\<open>listing_index\<close>.\<close>

datatype request =
    ScopingRequest string string
  | ResearchRequest user_requirements string
  | GeneralRequest string string
  | MapboxRequest string string
  | LocalDiscoveryRequest real real string int

section \<open>Session store\<close>

record geo_entry =
  ge_index :: int
  ge_latitude :: real
  ge_longitude :: real
  ge_address :: string

record poi_entry =
  pe_listing_index :: int
  pe_pois :: "pyval list"

text \<open>One \<^verbatim>\<open>sessions[session_id]\<close> dictionary: every key the coordinator uses, \<open>None\<close>
  when the key is absent.\<close>

record session =
  scoping :: "scoping_response option"
  research :: "research_response option"
  general :: "general_response option"
  mapbox :: "mapbox_response option"
  geocoded_results :: "geo_entry list option"
  geocoding_count :: "nat option"
  poi_results :: "poi_entry list option"
  poi_count :: "nat option"

definition empty_session :: session where
  "empty_session = \<lparr>scoping = None, research = None, general = None, mapbox = None,
     geocoded_results = None, geocoding_count = None, poi_results = None, poi_count = None\<rparr>"

text \<open>The coordinator's state: the \<^verbatim>\<open>sessions\<close> dictionary and the messages sent so far,
  oldest first.\<close>

record state =
  sessions :: "string \<rightharpoonup> session"
  outbox :: "request list"

definition the_session :: "state \<Rightarrow> string \<Rightarrow> session" where
  "the_session st sid = (case sessions st sid of None \<Rightarrow> empty_session | Some s \<Rightarrow> s)"

text \<open>\<^verbatim>\<open>if sid not in sessions: sessions[sid] = {}\<close>\<close>

definition ensure_session :: "string \<Rightarrow> state \<Rightarrow> state" where
  "ensure_session sid st =
     (case sessions st sid of
        None \<Rightarrow> st\<lparr>sessions := (sessions st)(sid \<mapsto> empty_session)\<rparr>
      | Some s \<Rightarrow> st)"

text \<open>A write into \<^verbatim>\<open>sessions[sid]\<close>, which every handler creates first when it is
  missing.\<close>

definition update_session :: "string \<Rightarrow> (session \<Rightarrow> session) \<Rightarrow> state \<Rightarrow> state" where
  "update_session sid f st = st\<lparr>sessions := (sessions st)(sid \<mapsto> f (the_session st sid))\<rparr>"

definition send :: "request \<Rightarrow> state \<Rightarrow> state" where
  "send m st = st\<lparr>outbox := outbox st @ [m]\<rparr>"

text \<open>The messages sent between two states of one run.\<close>

definition sent_by :: "state \<Rightarrow> state \<Rightarrow> request list" where
  "sent_by st st' = drop (length (outbox st)) (outbox st')"

text \<open>Truthiness of an \<^verbatim>\<open>Optional[str]\<close>.\<close>

definition str_truthy :: "string option \<Rightarrow> bool" where
  "str_truthy s = (case s of None \<Rightarrow> False | Some t \<Rightarrow> t \<noteq> [])"

definition get_count :: "nat option \<Rightarrow> nat" where
  "get_count c = (case c of None \<Rightarrow> 0 | Some n \<Rightarrow> n)"

definition get_list :: "'a list option \<Rightarrow> 'a list" where
  "get_list l = (case l of None \<Rightarrow> [] | Some xs \<Rightarrow> xs)"

section \<open>Reply handlers\<close>

definition handle_scoping :: "state \<Rightarrow> scoping_response \<Rightarrow> state" where
  "handle_scoping st msg =
     (let st1 = update_session (sc_session_id msg) (\<lambda>s. s\<lparr>scoping := Some msg\<rparr>) st
      in if is_general_question msg \<and> str_truthy (general_question msg)
         then send (GeneralRequest (the (general_question msg)) (sc_session_id msg)) st1
         else (case requirements msg of
                 Some r \<Rightarrow>
                   if is_complete msg then send (ResearchRequest r (sc_session_id msg)) st1
                   else st1
               | None \<Rightarrow> st1))"

text \<open>
  The fan-out loop of \<^verbatim>\<open>handle_research\<close> over \<^verbatim>\<open>enumerate(results_to_geocode)\<close>.
  \<^verbatim>\<open>MapboxRequest.address\<close> is a \<^verbatim>\<open>str\<close> field of a validated model: a truthy title
  that is not a string makes the constructor raise, which ends the handler with the
  requests sent so far.
\<close>

definition get_title :: "pydict \<Rightarrow> pyval" where
  "get_title result = (case result ''title'' of None \<Rightarrow> VStr [] | Some v \<Rightarrow> v)"

text \<open>The text of a string title (empty for any other value).\<close>

definition title_text :: "pydict \<Rightarrow> string" where
  "title_text result = (case get_title result of VStr a \<Rightarrow> a | _ \<Rightarrow> [])"

fun geocode_loop :: "string \<Rightarrow> nat \<Rightarrow> pydict list \<Rightarrow> state \<Rightarrow> py_error option \<times> state" where
  "geocode_loop sid idx [] st = (None, st)"
| "geocode_loop sid idx (result # rest) st =
     (let address = get_title result
      in if truthy address
         then (case address of
                 VStr a \<Rightarrow> geocode_loop sid (Suc idx) rest
                             (send (MapboxRequest a (encode_token sid idx)) st)
               | _ \<Rightarrow> (Some ValidationError, st))
         else geocode_loop sid (Suc idx) rest st)"

definition handle_research :: "state \<Rightarrow> research_response \<Rightarrow> py_error option \<times> state" where
  "handle_research st msg =
     (let st1 = update_session (rs_session_id msg)
                  (\<lambda>s. s\<lparr>research := Some msg, geocoded_results := Some [],
                          geocoding_count := Some 0, poi_results := Some [],
                          poi_count := Some 0\<rparr>) st
      in case raw_search_results msg of
           None \<Rightarrow> (None, st1)
         | Some results \<Rightarrow>
             if results \<noteq> [] \<and> length results > 0
             then geocode_loop (rs_session_id msg) 0 (take 5 results) st1
             else (None, st1))"

definition handle_mapbox :: "state \<Rightarrow> mapbox_response \<Rightarrow> py_error option \<times> state" where
  "handle_mapbox st msg =
     (case decode_token (mb_session_id msg) of
        Inl e \<Rightarrow> (Some e, st)
      | Inr (Composite base_session_id idx) \<Rightarrow>
          (let st1 = update_session base_session_id
                       (\<lambda>s. case geocoded_results s of
                               None \<Rightarrow> s\<lparr>geocoded_results := Some []\<rparr>
                             | Some _ \<Rightarrow> s) st;
               st2 = (if \<not> str_truthy (mb_error msg)
                      then send (LocalDiscoveryRequest (mb_latitude msg) (mb_longitude msg)
                                   base_session_id idx)
                             (update_session base_session_id
                                (\<lambda>s. s\<lparr>geocoded_results :=
                                          Some (get_list (geocoded_results s) @
                                            [\<lparr>ge_index = idx, ge_latitude = mb_latitude msg,
                                              ge_longitude = mb_longitude msg,
                                              ge_address = mb_address msg\<rparr>])\<rparr>) st1)
                      else st1)
           in (None, update_session base_session_id
                       (\<lambda>s. s\<lparr>geocoding_count := Some (get_count (geocoding_count s) + 1)\<rparr>)
                       st2))
      | Inr (Plain session_id) \<Rightarrow>
          (None, update_session session_id (\<lambda>s. s\<lparr>mapbox := Some msg\<rparr>) st))"

definition handle_local_discovery :: "state \<Rightarrow> local_discovery_response \<Rightarrow> state" where
  "handle_local_discovery st msg =
     (let st1 = update_session (ld_session_id msg)
                  (\<lambda>s. case poi_results s of
                          None \<Rightarrow> s\<lparr>poi_results := Some []\<rparr>
                        | Some _ \<Rightarrow> s) st;
          st2 = update_session (ld_session_id msg)
                  (\<lambda>s. s\<lparr>poi_results :=
                            Some (get_list (poi_results s) @
                              [\<lparr>pe_listing_index = listing_index msg,
                                pe_pois = map poi_dict (pois msg)\<rparr>])\<rparr>) st1
      in update_session (ld_session_id msg)
           (\<lambda>s. s\<lparr>poi_count := Some (get_count (poi_count s) + 1)\<rparr>) st2)"

definition handle_general :: "state \<Rightarrow> general_response \<Rightarrow> state" where
  "handle_general st msg =
     update_session (gn_session_id msg) (\<lambda>s. s\<lparr>general := Some msg\<rparr>) st"

text \<open>Dispatch of one incoming reply to its handler. An exception raised by a handler is
  logged by the agent framework; the reply is dropped and the mutations made before the
  raise stay.\<close>

fun deliver :: "state \<Rightarrow> reply \<Rightarrow> state" where
  "deliver st (ScopingResponse msg) = handle_scoping st msg"
| "deliver st (ResearchResponse msg) = snd (handle_research st msg)"
| "deliver st (GeneralResponse msg) = handle_general st msg"
| "deliver st (MapboxResponse msg) = snd (handle_mapbox st msg)"
| "deliver st (LocalDiscoveryResponse msg) = handle_local_discovery st msg"

section \<open>The REST handler\<close>

text \<open>The \<^verbatim>\<open>data\<close> dictionary of a \<^verbatim>\<open>ChatResponse\<close>, by the shapes the handler builds:
  a message (the two timeouts), the text of a caught exception, the four-key dictionary
  of the general and conversation answers (requirements, properties, search_summary,
  total_found; requirements \<open>None\<close> is \<^verbatim>\<open>{}\<close>), and the six-key dictionary of a search
  (the same four, top_result_coordinates, raw_search_results).\<close>

record top_coordinates =
  tc_latitude :: pyval
  tc_longitude :: pyval
  tc_address :: pyval
  tc_image_url :: pyval

datatype chat_data =
    Message string
  | ExceptionMessage py_error
  | Conversation "user_requirements option" "property_listing list" string int
  | SearchResult user_requirements "property_listing list" string int
      "top_coordinates option" "pydict list"

record chat_response =
  status :: string
  data :: chat_data

text \<open>
  The handler suspends at \<^verbatim>\<open>await ctx.send(...)\<close> and at every
  \<^verbatim>\<open>await asyncio.sleep(0.5)\<close>; the replies that arrive meanwhile are handled there,
  in order. A schedule lists, for each suspension point in turn, the replies delivered at
  it; past its end nothing arrives. Reply handlers run to completion once started.
\<close>

type_synonym schedule = "reply list list"

definition await_point :: "state \<Rightarrow> schedule \<Rightarrow> state \<times> schedule" where
  "await_point st sch =
     (case sch of [] \<Rightarrow> (st, []) | batch # rest \<Rightarrow> (foldl deliver st batch, rest))"

text \<open>
  \<^verbatim>\<open>for _ in range(n): if cond: break; await asyncio.sleep(0.5)\<close>. The first
  component tells whether the loop left through \<^verbatim>\<open>break\<close> (the \<^verbatim>\<open>else\<close> branch of the
  loop runs when it did not).
\<close>

fun wait_until ::
  "nat \<Rightarrow> (session \<Rightarrow> bool) \<Rightarrow> string \<Rightarrow> state \<Rightarrow> schedule \<Rightarrow> bool \<times> state \<times> schedule" where
  "wait_until 0 cond sid st sch = (False, st, sch)"
| "wait_until (Suc n) cond sid st sch =
     (if cond (the_session st sid) then (True, st, sch)
      else (case await_point st sch of (st', sch') \<Rightarrow> wait_until n cond sid st' sch'))"

text \<open>\<^verbatim>\<open>img["index"] == idx\<close> for an integer \<^verbatim>\<open>idx\<close>: numbers compare by value, and
  \<^verbatim>\<open>True\<close>, \<^verbatim>\<open>False\<close> are the numbers 1 and 0.\<close>

fun py_eq_int :: "pyval \<Rightarrow> int \<Rightarrow> bool" where
  "py_eq_int (VInt n) i = (n = i)"
| "py_eq_int (VBool b) i = ((if b then 1 else 0) = i)"
| "py_eq_int (VFloat r) i = (r = of_int i)"
| "py_eq_int v i = False"

text \<open>\<^verbatim>\<open>next((img for img in result_images if img["index"] == idx), None)\<close>: the first
  entry with the index; an entry without the key reached before a match raises
  \<^verbatim>\<open>KeyError\<close>.\<close>

fun find_image :: "pydict list \<Rightarrow> int \<Rightarrow> py_error + pydict option" where
  "find_image [] idx = Inr None"
| "find_image (img # rest) idx =
     (case img ''index'' of
        None \<Rightarrow> Inl KeyError
      | Some v \<Rightarrow> if py_eq_int v idx then Inr (Some img) else find_image rest idx)"

text \<open>The merge of one candidate (\<^verbatim>\<open>dict(result)\<close>) with the geocoded entry, image and
  POI list recorded for its index; \<^verbatim>\<open>next(... , None)\<close> takes the first match. A matching
  image entry is a non-empty dictionary, so \<^verbatim>\<open>if image_data:\<close> holds for it, and
  \<^verbatim>\<open>image_data["image_url"]\<close> raises \<^verbatim>\<open>KeyError\<close> when that key is missing.\<close>

definition enhance ::
  "geo_entry list \<Rightarrow> pydict list \<Rightarrow> poi_entry list \<Rightarrow> nat \<Rightarrow> pydict \<Rightarrow> py_error + pydict" where
  "enhance geocoded images poi_res idx result =
     (let e1 = (case find (\<lambda>g. ge_index g = int idx) geocoded of
                  Some g \<Rightarrow> result(''latitude'' \<mapsto> VFloat (ge_latitude g),
                                   ''longitude'' \<mapsto> VFloat (ge_longitude g),
                                   ''address'' \<mapsto> VStr (ge_address g))
                | None \<Rightarrow> result)
      in (case find_image images (int idx) of
            Inl e \<Rightarrow> Inl e
          | Inr image_data \<Rightarrow>
              (case (case image_data of
                       None \<Rightarrow> Inr e1
                     | Some img \<Rightarrow>
                         (case img ''image_url'' of
                            None \<Rightarrow> Inl KeyError
                          | Some u \<Rightarrow> Inr (e1(''image_url'' \<mapsto> u)))) of
                 Inl e \<Rightarrow> Inl e
               | Inr e2 \<Rightarrow>
                   Inr (case find (\<lambda>p. pe_listing_index p = int idx) poi_res of
                          Some p \<Rightarrow> e2(''pois'' \<mapsto> VList (pe_pois p))
                        | None \<Rightarrow> e2(''pois'' \<mapsto> VList [])))))"

text \<open>The merge loop over \<^verbatim>\<open>enumerate(research_msg.raw_search_results[:5])\<close>; the first
  exception ends it.\<close>

fun enhance_all ::
  "geo_entry list \<Rightarrow> pydict list \<Rightarrow> poi_entry list \<Rightarrow> nat \<Rightarrow> pydict list \<Rightarrow>
   py_error + pydict list" where
  "enhance_all geocoded images poi_res idx [] = Inr []"
| "enhance_all geocoded images poi_res idx (result # rest) =
     (case enhance geocoded images poi_res idx result of
        Inl e \<Rightarrow> Inl e
      | Inr enhanced_result \<Rightarrow>
          (case enhance_all geocoded images poi_res (Suc idx) rest of
             Inl e \<Rightarrow> Inl e
           | Inr enhanced_results \<Rightarrow> Inr (enhanced_result # enhanced_results)))"

text \<open>The logging loop after the merge evaluates
  \<^verbatim>\<open>result.get('title', 'No title')[:50]\<close>: a title that cannot be sliced raises (a
  \<^verbatim>\<open>TypeError\<close>; for a dictionary title Python 3.12 raises \<^verbatim>\<open>KeyError\<close> instead).\<close>

definition title_sliceable :: "pydict \<Rightarrow> bool" where
  "title_sliceable result =
     (case result ''title'' of
        None \<Rightarrow> True
      | Some (VStr t) \<Rightarrow> True
      | Some (VList xs) \<Rightarrow> True
      | Some v \<Rightarrow> False)"

definition top_result_coords :: "pydict list \<Rightarrow> py_error + top_coordinates option" where
  "top_result_coords enhanced_results =
     (case enhanced_results of
        [] \<Rightarrow> Inr None
      | e # rest \<Rightarrow>
          (case e ''latitude'' of
             None \<Rightarrow> Inr None
           | Some lat \<Rightarrow>
               (case e ''longitude'' of
                  None \<Rightarrow> Inl KeyError
                | Some lon \<Rightarrow>
                    Inr (Some \<lparr>tc_latitude = lat, tc_longitude = lon,
                      tc_address = (case e ''address'' of
                                      Some a \<Rightarrow> a
                                    | None \<Rightarrow> (case e ''title'' of
                                                 Some t \<Rightarrow> t
                                               | None \<Rightarrow> VStr [])),
                      tc_image_url = (case e ''image_url'' of
                                        Some u \<Rightarrow> u
                                      | None \<Rightarrow> VNone)\<rparr>))))"

text \<open>The merge and the success answer of the search path, from the session as it is
  after the waits. \<^verbatim>\<open>research_msg.raw_search_results[:5]\<close> raises on \<^verbatim>\<open>None\<close>.\<close>

definition merge_results ::
  "user_requirements \<Rightarrow> research_response \<Rightarrow> session \<Rightarrow> py_error + chat_data" where
  "merge_results reqs research_msg s =
     (case raw_search_results research_msg of
        None \<Rightarrow> Inl TypeError
      | Some results \<Rightarrow>
          (case enhance_all (get_list (geocoded_results s))
                  (get_list (result_images research_msg))
                  (get_list (poi_results s)) 0 (take 5 results) of
             Inl e \<Rightarrow> Inl e
           | Inr enhanced_results \<Rightarrow>
               if \<not> list_all title_sliceable enhanced_results then Inl TypeError
               else (case top_result_coords enhanced_results of
                       Inl e \<Rightarrow> Inl e
                     | Inr coords \<Rightarrow>
                         Inr (SearchResult reqs (properties research_msg)
                                (search_summary research_msg) (total_found research_msg)
                                coords enhanced_results))))"

definition results_count :: "pydict list \<Rightarrow> nat" where
  "results_count results = min (length results) 5"

text \<open>The two bounded waits for the fan-out, run only when there are candidates.\<close>

definition wait_fanout :: "research_response \<Rightarrow> string \<Rightarrow> state \<Rightarrow> schedule \<Rightarrow> state \<times> schedule" where
  "wait_fanout research_msg sid st sch =
     (case raw_search_results research_msg of
        None \<Rightarrow> (st, sch)
      | Some results \<Rightarrow>
          if results \<noteq> [] \<and> length results > 0
          then (case wait_until 30
                       (\<lambda>s. get_count (geocoding_count s) \<ge> results_count results) sid st sch of
                  (b1, st1, sch1) \<Rightarrow>
                    (case wait_until 40
                            (\<lambda>s. get_count (poi_count s) \<ge> results_count results) sid st1 sch1 of
                       (b2, st2, sch2) \<Rightarrow> (st2, sch2)))
          else (st, sch))"

text \<open>The \<^verbatim>\<open>raw_search_results\<close> entry of the answer's data, the enriched results (empty
  when the data has no such entry).\<close>

definition enriched_results :: "chat_response \<Rightarrow> pydict list" where
  "enriched_results response =
     (case data response of
        SearchResult reqs props summary found coords enhanced_results \<Rightarrow> enhanced_results
      | _ \<Rightarrow> [])"

definition error_response :: "chat_data \<Rightarrow> chat_response" where
  "error_response d = \<lparr>status = ''error'', data = d\<rparr>"

definition success_response :: "chat_data \<Rightarrow> chat_response" where
  "success_response d = \<lparr>status = ''success'', data = d\<rparr>"

text \<open>The search path, once \<^verbatim>\<open>scoping_msg.is_complete and scoping_msg.requirements\<close>
  holds.\<close>

definition search_path ::
  "user_requirements \<Rightarrow> string \<Rightarrow> state \<Rightarrow> schedule \<Rightarrow> chat_response \<times> state \<times> schedule" where
  "search_path reqs sid st sch =
     (case wait_until 60 (\<lambda>s. research s \<noteq> None) sid st sch of
        (b, st1, sch1) \<Rightarrow>
          (case research (the_session st1 sid) of
             None \<Rightarrow> (error_response (Message ''Research agent did not respond in time''),
                       st1, sch1)
           | Some research_msg \<Rightarrow>
               (case wait_fanout research_msg sid st1 sch1 of
                  (st2, sch2) \<Rightarrow>
                    (case merge_results reqs research_msg (the_session st2 sid) of
                       Inl e \<Rightarrow> (error_response (ExceptionMessage e), st2, sch2)
                     | Inr d \<Rightarrow> (success_response d, st2, sch2)))))"

text \<open>The handler from \<^verbatim>\<open>scoping_msg = sessions[req.session_id]["scoping"]\<close> on.\<close>

definition after_scoping ::
  "scoping_response \<Rightarrow> string \<Rightarrow> state \<Rightarrow> schedule \<Rightarrow> chat_response \<times> state \<times> schedule" where
  "after_scoping scoping_msg sid st sch =
     (case (if is_general_question scoping_msg
            then (case wait_until 60 (\<lambda>s. general s \<noteq> None) sid st sch of
                    (b, st', sch') \<Rightarrow> (st', sch'))
            else (st, sch)) of
        (st1, sch1) \<Rightarrow>
          (case (if is_general_question scoping_msg then general (the_session st1 sid)
                 else None) of
             Some general_msg \<Rightarrow>
               (success_response (Conversation None [] (answer general_msg) 0), st1, sch1)
           | None \<Rightarrow>
               (case (if is_complete scoping_msg then requirements scoping_msg else None) of
                  Some reqs \<Rightarrow> search_path reqs sid st1 sch1
                | None \<Rightarrow>
                    (success_response
                       (Conversation (requirements scoping_msg) [] (agent_message scoping_msg) 0),
                     st1, sch1))))"

text \<open>\<^verbatim>\<open>handle_chat\<close>: the answer, the state it leaves and the rest of the schedule.\<close>

definition handle_chat ::
  "state \<Rightarrow> string \<Rightarrow> string \<Rightarrow> schedule \<Rightarrow> chat_response \<times> state \<times> schedule" where
  "handle_chat st message session_id sch =
     (let st0 = ensure_session session_id st;
          st1 = update_session session_id (\<lambda>s. s\<lparr>scoping := None, research := None\<rparr>) st0
      in (case await_point (send (ScopingRequest message session_id) st1) sch of
            (st2, sch2) \<Rightarrow>
              (case wait_until 60 (\<lambda>s. scoping s \<noteq> None) session_id st2 sch2 of
                 (found, st3, sch3) \<Rightarrow>
                   if \<not> found
                   then (error_response (Message ''Timeout waiting for scoping agent''),
                         st3, sch3)
                   else (case scoping (the_session st3 session_id) of
                           None \<Rightarrow> (error_response (ExceptionMessage KeyError), st3, sch3)
                         | Some scoping_msg \<Rightarrow> after_scoping scoping_msg session_id st3 sch3))))"

section \<open>Sessions of replies and requests\<close>

text \<open>The session a reply is addressed to: the \<^verbatim>\<open>session_id\<close> field, for a geocoding
  reply the base of its token as \<^verbatim>\<open>handle_mapbox\<close> decodes it.\<close>

fun reply_for :: "string \<Rightarrow> reply \<Rightarrow> bool" where
  "reply_for sid (ScopingResponse m) = (sc_session_id m = sid)"
| "reply_for sid (ResearchResponse m) = (rs_session_id m = sid)"
| "reply_for sid (GeneralResponse m) = (gn_session_id m = sid)"
| "reply_for sid (MapboxResponse m) =
     (case decode_token (mb_session_id m) of
        Inl e \<Rightarrow> False
      | Inr (Composite base idx) \<Rightarrow> base = sid
      | Inr (Plain s) \<Rightarrow> s = sid)"
| "reply_for sid (LocalDiscoveryResponse m) = (ld_session_id m = sid)"

text \<open>The requests that belong to a session: those that carry its \<^verbatim>\<open>session_id\<close>, and
  the geocoding requests tagged with one of its five composite tokens.\<close>

fun request_for :: "string \<Rightarrow> request \<Rightarrow> bool" where
  "request_for sid (ScopingRequest message s) = (s = sid)"
| "request_for sid (ResearchRequest reqs s) = (s = sid)"
| "request_for sid (GeneralRequest question s) = (s = sid)"
| "request_for sid (MapboxRequest address tok) = (tok \<in> set (map (encode_token sid) [0..<5]))"
| "request_for sid (LocalDiscoveryRequest lat lon s idx) = (s = sid)"



text \<open>The number a string of decimal digits denotes.\<close>

definition digits_value :: "string \<Rightarrow> nat" where
  "digits_value s = foldl (\<lambda>a c. a * 10 + (case digit_val c of None \<Rightarrow> 0 | Some v \<Rightarrow> v)) 0 s"

section \<open>Example inputs\<close>

definition initial_state :: state where
  "initial_state = \<lparr>sessions = Map.empty, outbox = []\<rparr>"

definition geocoded_reply :: "string \<Rightarrow> mapbox_response" where
  "geocoded_reply tok = \<lparr>mb_address = ''1 Main St, Oakland'', mb_latitude = 37,
     mb_longitude = -122, mb_session_id = tok, mb_error = None, mb_image_url = None\<rparr>"

definition failed_reply :: "string \<Rightarrow> mapbox_response" where
  "failed_reply tok = \<lparr>mb_address = ''nowhere'', mb_latitude = 0, mb_longitude = 0,
     mb_session_id = tok, mb_error = Some ''No coordinates found for address'',
     mb_image_url = None\<rparr>"

definition poi_reply :: "string \<Rightarrow> int \<Rightarrow> local_discovery_response" where
  "poi_reply sid idx = \<lparr>pois = [], ld_session_id = sid, listing_index = idx\<rparr>"

definition candidate :: "string \<Rightarrow> pydict" where
  "candidate t = [''title'' \<mapsto> VStr t]"

definition research_reply :: "string \<Rightarrow> pydict list \<Rightarrow> research_response" where
  "research_reply sid results = \<lparr>properties = [], search_summary = ''Found homes'',
     total_found = int (length results), rs_session_id = sid,
     raw_search_results = Some results, top_result_image_url = None,
     result_images = None\<rparr>"

definition eight_candidates :: "pydict list" where
  "eight_candidates = map candidate [''A'', ''B'', ''C'', ''D'', ''E'', ''F'', ''G'', ''H'']"

definition eight_with_gap :: "pydict list" where
  "eight_with_gap = map candidate [''A'', ''B'', '''', ''D'', ''E'', ''F'', ''G'', ''H'']"

definition requirements_oakland :: user_requirements where
  "requirements_oakland = \<lparr>budget_min = None, budget_max = Some 900000, bedrooms = Some 2,
     bathrooms = Some 1, location = ''Oakland'', additional_info = None\<rparr>"

definition search_scoping :: "string \<Rightarrow> scoping_response" where
  "search_scoping sid = \<lparr>agent_message = ''Searching for homes in Oakland.'',
     is_complete = True, sc_session_id = sid, requirements = Some requirements_oakland,
     is_general_question = False, general_question = None\<rparr>"

definition general_scoping :: "string \<Rightarrow> scoping_response" where
  "general_scoping sid = \<lparr>agent_message = ''Let me look that up.'',
     is_complete = False, sc_session_id = sid, requirements = None,
     is_general_question = True, general_question = Some ''How are the schools in Oakland?''\<rparr>"

definition general_reply :: "string \<Rightarrow> string \<Rightarrow> general_response" where
  "general_reply sid text = \<lparr>answer = text, gn_session_id = sid\<rparr>"

definition state_with_answer :: state where
  "state_with_answer =
     update_session ''s'' (\<lambda>s. s\<lparr>general := Some (general_reply ''s'' ''Old answer'')\<rparr>)
       initial_state"

section \<open>Properties of the token scheme\<close>

lemma has_sep_append_sep: "has_sep (t @ CHR ''_'' # CHR ''_'' # r)"
  by (induction t rule: has_sep.induct) auto

lemma split_sep_append_sep:
  "\<not> has_sep t \<Longrightarrow> t = [] \<or> last t \<noteq> CHR ''_'' \<Longrightarrow>
   split_sep (t @ CHR ''_'' # CHR ''_'' # r) = Some (t, r)"
  by (induction t rule: split_sep.induct) (auto split: if_splits)

lemma py_int_str_nat_small: "i < 5 \<Longrightarrow> py_int (str_nat i) = Some (int i)"
proof -
  assume "i < 5"
  then consider "i = 0" | "i = 1" | "i = 2" | "i = 3" | "i = 4" by linarith
  then show ?thesis
    by cases (simp_all add: str_nat.simps digit_char_def py_int_def strip_def is_space_def
        parse_unsigned_def digit_val_def max_str_digits_def)
qed

text \<open>
  C1 (amended). For every session token \<open>t\<close> that does not contain the separator
  \<^verbatim>\<open>__\<close> and does not end with an underscore, and every index \<open>i < 5\<close>, decoding the
  composite token built at fan-out time gives back the composite \<open>(t, i)\<close>.
\<close>

theorem token_roundtrip:
  assumes "\<not> has_sep t" and "t = [] \<or> last t \<noteq> CHR ''_''" and "i < 5"
  shows "decode_token (encode_token t i) = Inr (Composite t (int i))"
  using assms
  by (simp add: decode_token_def encode_token_def has_sep_append_sep split_sep_append_sep
      py_int_str_nat_small)

theorem token_roundtrip_witness:
  "\<not> has_sep ''session-1'' \<and> last ''session-1'' \<noteq> CHR ''_'' \<and> (4::nat) < 5 \<and>
   decode_token (encode_token ''session-1'' 4) = Inr (Composite ''session-1'' 4)"
  using token_roundtrip [of "''session-1''" 4] by simp

text \<open>
  C1 as stated fails: the token \<^verbatim>\<open>a_\<close> does not contain the separator, yet its
  composite \<^verbatim>\<open>a___0\<close> splits at the first \<^verbatim>\<open>__\<close> into \<^verbatim>\<open>a\<close> and \<^verbatim>\<open>_0\<close>, and
  \<^verbatim>\<open>int("_0")\<close> raises.
\<close>

theorem token_roundtrip_counterexample:
  "\<not> has_sep ''a_'' \<and> (0::nat) < 5 \<and>
   decode_token (encode_token ''a_'' 0) = Inl ValueError \<and>
   decode_token (encode_token ''a_'' 0) \<noteq> Inr (Composite ''a_'' (int 0))"
  by (simp add: decode_token_def encode_token_def str_nat.simps digit_char_def py_int_def
      strip_def is_space_def parse_unsigned_def digit_val_def max_str_digits_def)

section \<open>Properties of the reply handlers\<close>

lemma the_session_update [simp]:
  "the_session (update_session sid f st) sid' =
     (if sid' = sid then f (the_session st sid) else the_session st sid')"
  by (simp add: the_session_def update_session_def)

lemma outbox_update [simp]: "outbox (update_session sid f st) = outbox st"
  by (simp add: update_session_def)

lemma the_session_send [simp]: "the_session (send m st) sid = the_session st sid"
  by (simp add: the_session_def send_def)

lemma sessions_send [simp]: "sessions (send m st) = sessions st"
  by (simp add: send_def)

lemma outbox_send [simp]: "outbox (send m st) = outbox st @ [m]"
  by (simp add: send_def)

lemma find_append_Some: "find P xs = Some x \<Longrightarrow> find P (xs @ ys) = Some x"
  by (induction xs) (auto split: if_splits)

lemmas token_eval = decode_token_def encode_token_def str_nat.simps digit_char_def py_int_def
  strip_def is_space_def parse_unsigned_def digit_val_def max_str_digits_def

lemmas handler_eval = handle_mapbox_def handle_local_discovery_def geocoded_reply_def
  failed_reply_def poi_reply_def initial_state_def Let_def str_truthy_def get_count_def
  get_list_def empty_session_def the_session_def update_session_def send_def

lemma decode_s0: "decode_token ''s__0'' = Inr (Composite ''s'' 0)"
  by (simp add: token_eval)

lemma decode_s2: "decode_token ''s__2'' = Inr (Composite ''s'' 2)"
  by (simp add: token_eval)

lemma decode_s3: "decode_token ''s__3'' = Inr (Composite ''s'' 3)"
  by (simp add: token_eval)

text \<open>
  C2 (amended). A further reply for an index that already has a recorded value, in either
  fan-out category, never overwrites or removes that value: the recorded list only grows
  at its end (a further geocoding reply without error and every further POI reply append
  one entry, a further geocoding reply with an error appends nothing), so the entry
  recorded first for the index stays the first match, which is the one the merge reads.
  The counter of the category, however, is incremented once more by every such reply.
\<close>

theorem duplicate_reply_counted_again:
  "(decode_token (mb_session_id m) = Inr (Composite sid idx) \<longrightarrow>
    find (\<lambda>g. ge_index g = idx) (get_list (geocoded_results (the_session st sid))) = Some g \<longrightarrow>
      geocoding_count (the_session (snd (handle_mapbox st m)) sid) =
        Some (get_count (geocoding_count (the_session st sid)) + 1) \<and>
      get_list (geocoded_results (the_session (snd (handle_mapbox st m)) sid)) =
        get_list (geocoded_results (the_session st sid)) @
          (if str_truthy (mb_error m) then []
           else [\<lparr>ge_index = idx, ge_latitude = mb_latitude m,
                   ge_longitude = mb_longitude m, ge_address = mb_address m\<rparr>]) \<and>
      find (\<lambda>g. ge_index g = idx)
        (get_list (geocoded_results (the_session (snd (handle_mapbox st m)) sid))) = Some g) \<and>
   (find (\<lambda>p. pe_listing_index p = listing_index r)
      (get_list (poi_results (the_session st2 (ld_session_id r)))) = Some p \<longrightarrow>
      poi_count (the_session (handle_local_discovery st2 r) (ld_session_id r)) =
        Some (get_count (poi_count (the_session st2 (ld_session_id r))) + 1) \<and>
      get_list (poi_results (the_session (handle_local_discovery st2 r) (ld_session_id r))) =
        get_list (poi_results (the_session st2 (ld_session_id r))) @
          [\<lparr>pe_listing_index = listing_index r, pe_pois = map poi_dict (pois r)\<rparr>] \<and>
      find (\<lambda>p. pe_listing_index p = listing_index r)
        (get_list (poi_results (the_session (handle_local_discovery st2 r) (ld_session_id r))))
        = Some p)"
  by (auto simp: handle_mapbox_def handle_local_discovery_def Let_def get_list_def
      find_append_Some split: option.splits)

theorem duplicate_reply_counted_again_witness:
  "geocoding_count (the_session (snd (handle_mapbox
      (snd (handle_mapbox initial_state (geocoded_reply ''s__0''))) (geocoded_reply ''s__0'')))
      ''s'') = Some 2 \<and>
   get_list (geocoded_results (the_session (snd (handle_mapbox
      (snd (handle_mapbox initial_state (geocoded_reply ''s__0''))) (geocoded_reply ''s__0'')))
      ''s'')) =
     [\<lparr>ge_index = 0, ge_latitude = 37, ge_longitude = -122,
        ge_address = ''1 Main St, Oakland''\<rparr>,
      \<lparr>ge_index = 0, ge_latitude = 37, ge_longitude = -122,
        ge_address = ''1 Main St, Oakland''\<rparr>] \<and>
   find (\<lambda>g. ge_index g = 0) (get_list (geocoded_results (the_session (snd (handle_mapbox
      (snd (handle_mapbox initial_state (geocoded_reply ''s__0''))) (geocoded_reply ''s__0'')))
      ''s'')))
     = Some \<lparr>ge_index = 0, ge_latitude = 37, ge_longitude = -122,
              ge_address = ''1 Main St, Oakland''\<rparr> \<and>
   poi_count (the_session (handle_local_discovery
      (handle_local_discovery initial_state (poi_reply ''s'' 0)) (poi_reply ''s'' 0)) ''s'')
     = Some 2 \<and>
   get_list (poi_results (the_session
      (handle_local_discovery (handle_local_discovery initial_state (poi_reply ''s'' 0))
         (poi_reply ''s'' 0)) ''s''))
     = [\<lparr>pe_listing_index = 0, pe_pois = []\<rparr>, \<lparr>pe_listing_index = 0, pe_pois = []\<rparr>]"
proof -
  let ?g = "\<lparr>ge_index = 0, ge_latitude = 37, ge_longitude = -122,
        ge_address = ''1 Main St, Oakland''\<rparr>"
  let ?p = "\<lparr>pe_listing_index = 0, pe_pois = []\<rparr>"
  let ?st = "snd (handle_mapbox initial_state (geocoded_reply ''s__0''))"
  let ?st2 = "handle_local_discovery initial_state (poi_reply ''s'' 0)"
  have d: "decode_token (mb_session_id (geocoded_reply ''s__0'')) = Inr (Composite ''s'' 0)"
    by (simp add: geocoded_reply_def decode_s0)
  have g: "get_list (geocoded_results (the_session ?st ''s'')) = [?g]"
    by (simp add: handler_eval decode_s0)
  have c: "get_count (geocoding_count (the_session ?st ''s'')) = 1"
    by (simp add: handler_eval decode_s0)
  have p: "get_list (poi_results (the_session ?st2 ''s'')) = [?p]"
    by (simp add: handler_eval)
  have pc: "get_count (poi_count (the_session ?st2 ''s'')) = 1"
    by (simp add: handler_eval)
  have f1: "find (\<lambda>g. ge_index g = 0) (get_list (geocoded_results (the_session ?st ''s''))) = Some ?g"
    unfolding g by simp
  have f2: "find (\<lambda>p. pe_listing_index p = listing_index (poi_reply ''s'' 0))
      (get_list (poi_results (the_session ?st2 (ld_session_id (poi_reply ''s'' 0))))) = Some ?p"
    using p by (simp add: poi_reply_def)
  from duplicate_reply_counted_again [of "geocoded_reply ''s__0''" "''s''" 0 ?st ?g
      "poi_reply ''s'' 0" ?st2 ?p] d f1 f2 g c p pc
  show ?thesis
    by (simp add: geocoded_reply_def poi_reply_def str_truthy_def)
qed

text \<open>
  C2 as stated fails: the same successful geocoding reply delivered twice raises the
  geocoding counter from 1 to 2, and the same POI reply delivered twice raises the POI
  counter from 1 to 2.
\<close>

theorem duplicate_reply_counterexample:
  "geocoding_count (the_session (snd (handle_mapbox initial_state (geocoded_reply ''s__0'')))
      ''s'') = Some 1 \<and>
   geocoding_count (the_session (snd (handle_mapbox
      (snd (handle_mapbox initial_state (geocoded_reply ''s__0''))) (geocoded_reply ''s__0'')))
      ''s'') = Some 2 \<and>
   poi_count (the_session (handle_local_discovery initial_state (poi_reply ''s'' 0)) ''s'')
     = Some 1 \<and>
   poi_count (the_session (handle_local_discovery
      (handle_local_discovery initial_state (poi_reply ''s'' 0)) (poi_reply ''s'' 0)) ''s'')
     = Some 2"
  by (simp add: handler_eval decode_s0)

text \<open>
  C3 (amended). A geocoding reply that carries an error for index \<open>idx\<close> of session
  \<open>sid\<close> raises no exception, sends nothing (no point-of-interest request), records no
  coordinate (the recorded list is unchanged), and does increment the geocoding counter by
  one. A following reply for any index of the same session records the same coordinates
  and sends the same requests as it would have without the failed reply.
\<close>

theorem geocoding_error_reply:
  assumes "decode_token (mb_session_id m) = Inr (Composite sid idx)"
    and "str_truthy (mb_error m)"
  shows "fst (handle_mapbox st m) = None \<and>
         outbox (snd (handle_mapbox st m)) = outbox st \<and>
         get_list (geocoded_results (the_session (snd (handle_mapbox st m)) sid)) =
           get_list (geocoded_results (the_session st sid)) \<and>
         geocoding_count (the_session (snd (handle_mapbox st m)) sid) =
           Some (get_count (geocoding_count (the_session st sid)) + 1) \<and>
         (\<forall>m2 j. decode_token (mb_session_id m2) = Inr (Composite sid j) \<longrightarrow>
            geocoded_results (the_session (snd (handle_mapbox (snd (handle_mapbox st m)) m2)) sid) =
              geocoded_results (the_session (snd (handle_mapbox st m2)) sid) \<and>
            outbox (snd (handle_mapbox (snd (handle_mapbox st m)) m2)) =
              outbox (snd (handle_mapbox st m2)))"
  using assms
  by (auto simp: handle_mapbox_def Let_def get_list_def split: option.splits)

theorem geocoding_error_reply_witness:
  "decode_token (mb_session_id (failed_reply ''s__2'')) = Inr (Composite ''s'' 2) \<and>
   str_truthy (mb_error (failed_reply ''s__2'')) \<and>
   fst (handle_mapbox initial_state (failed_reply ''s__2'')) = None \<and>
   outbox (snd (handle_mapbox initial_state (failed_reply ''s__2''))) = [] \<and>
   get_list (geocoded_results
     (the_session (snd (handle_mapbox initial_state (failed_reply ''s__2''))) ''s'')) = [] \<and>
   geocoding_count
     (the_session (snd (handle_mapbox initial_state (failed_reply ''s__2''))) ''s'') = Some 1 \<and>
   outbox (snd (handle_mapbox (snd (handle_mapbox initial_state (failed_reply ''s__2'')))
     (geocoded_reply ''s__3''))) = [LocalDiscoveryRequest 37 (-122) ''s'' 3]"
proof -
  have d: "decode_token (mb_session_id (failed_reply ''s__2'')) = Inr (Composite ''s'' 2)"
    by (simp add: failed_reply_def decode_s2)
  have e: "str_truthy (mb_error (failed_reply ''s__2''))"
    by (simp add: failed_reply_def str_truthy_def)
  have d3: "decode_token (mb_session_id (geocoded_reply ''s__3'')) = Inr (Composite ''s'' 3)"
    by (simp add: geocoded_reply_def decode_s3)
  have o: "outbox (snd (handle_mapbox initial_state (geocoded_reply ''s__3''))) =
      [LocalDiscoveryRequest 37 (-122) ''s'' 3]"
    by (simp add: handler_eval decode_s3)
  from geocoding_error_reply [OF d e, of initial_state] d e d3 o show ?thesis
    by (simp add: initial_state_def the_session_def empty_session_def get_list_def
        get_count_def)
qed

text \<open>
  C3 as stated fails: a geocoding reply with an error for index 2 is counted, the
  geocoding counter of the session goes from 0 to 1.
\<close>

theorem geocoding_error_reply_counterexample:
  "str_truthy (mb_error (failed_reply ''s__2'')) \<and>
   decode_token (mb_session_id (failed_reply ''s__2'')) = Inr (Composite ''s'' 2) \<and>
   get_count (geocoding_count (the_session initial_state ''s'')) = 0 \<and>
   get_count (geocoding_count
     (the_session (snd (handle_mapbox initial_state (failed_reply ''s__2''))) ''s'')) = 1"
  by (simp add: handler_eval decode_s2)

section \<open>Properties of the fan-out\<close>

lemma digit_val_digit_char: "d < 10 \<Longrightarrow> digit_val (digit_char d) = Some d"
proof -
  assume d: "d < 10"
  have low: "d < 5 \<Longrightarrow> d = 0 \<or> d = 1 \<or> d = 2 \<or> d = 3 \<or> d = 4" by arith
  have high: "5 \<le> d \<Longrightarrow> d < 10 \<Longrightarrow> d = 5 \<or> d = 6 \<or> d = 7 \<or> d = 8 \<or> d = 9" by arith
  from d low high
  have "d = 0 \<or> d = 1 \<or> d = 2 \<or> d = 3 \<or> d = 4 \<or> d = 5 \<or> d = 6 \<or> d = 7 \<or> d = 8 \<or> d = 9"
    by (cases "d < 5") auto
  then show ?thesis by (elim disjE) (simp_all add: digit_char_def digit_val_def)
qed

lemma digits_value_str_nat: "digits_value (str_nat n) = n"
proof (induction n rule: str_nat.induct)
  case (1 n)
  show ?case
  proof (cases "n < 10")
    case True
    then show ?thesis by (simp add: str_nat.simps [of n] digits_value_def digit_val_digit_char)
  next
    case False
    with 1 have "digits_value (str_nat (n div 10)) = n div 10" by simp
    with False show ?thesis
      by (simp add: str_nat.simps [of n] digits_value_def digit_val_digit_char)
  qed
qed

lemma str_nat_inj: "str_nat i = str_nat j \<Longrightarrow> i = j"
  by (metis digits_value_str_nat)


lemma geocode_loop_sent:
  "\<exists>sent. outbox (snd (geocode_loop sid idx rs st)) = outbox st @ sent \<and>
      length sent \<le> length rs \<and>
      (\<forall>m\<in>set sent. \<exists>j<length rs. \<exists>a. get_title (rs ! j) = VStr a \<and> a \<noteq> [] \<and>
          m = MapboxRequest a (encode_token sid (idx + j)))"
proof (induction rs arbitrary: idx st)
  case Nil
  then show ?case by simp
next
  case (Cons r rs)
  show ?case
  proof (cases "truthy (get_title r)")
    case False
    from Cons [of "Suc idx" st] obtain sent where
      s: "outbox (snd (geocode_loop sid (Suc idx) rs st)) = outbox st @ sent"
        "length sent \<le> length rs"
        "\<forall>m\<in>set sent. \<exists>j<length rs. \<exists>a. get_title (rs ! j) = VStr a \<and> a \<noteq> [] \<and>
          m = MapboxRequest a (encode_token sid (Suc idx + j))" by blast
    have "\<forall>m\<in>set sent. \<exists>j<length (r # rs). \<exists>a. get_title ((r # rs) ! j) = VStr a \<and> a \<noteq> [] \<and>
          m = MapboxRequest a (encode_token sid (idx + j))"
    proof
      fix m assume "m \<in> set sent"
      with s(3) obtain j a where "j < length rs" "get_title (rs ! j) = VStr a" "a \<noteq> []"
        "m = MapboxRequest a (encode_token sid (Suc idx + j))" by blast
      then show "\<exists>j<length (r # rs). \<exists>a. get_title ((r # rs) ! j) = VStr a \<and> a \<noteq> [] \<and>
          m = MapboxRequest a (encode_token sid (idx + j))"
        by (intro exI [of _ "Suc j"]) simp
    qed
    with s False show ?thesis by (intro exI [of _ sent]) (simp add: Let_def)
  next
    case True
    show ?thesis
    proof (cases "get_title r")
      case (VStr a)
      with True have ne: "a \<noteq> []" by simp
      let ?st = "send (MapboxRequest a (encode_token sid idx)) st"
      from Cons [of "Suc idx" ?st] obtain sent where
        s: "outbox (snd (geocode_loop sid (Suc idx) rs ?st)) = outbox ?st @ sent"
          "length sent \<le> length rs"
          "\<forall>m\<in>set sent. \<exists>j<length rs. \<exists>a. get_title (rs ! j) = VStr a \<and> a \<noteq> [] \<and>
            m = MapboxRequest a (encode_token sid (Suc idx + j))" by blast
      have "\<forall>m\<in>set (MapboxRequest a (encode_token sid idx) # sent).
          \<exists>j<length (r # rs). \<exists>a. get_title ((r # rs) ! j) = VStr a \<and> a \<noteq> [] \<and>
          m = MapboxRequest a (encode_token sid (idx + j))"
      proof
        fix m assume "m \<in> set (MapboxRequest a (encode_token sid idx) # sent)"
        then consider "m = MapboxRequest a (encode_token sid idx)" | "m \<in> set sent" by auto
        then show "\<exists>j<length (r # rs). \<exists>a. get_title ((r # rs) ! j) = VStr a \<and> a \<noteq> [] \<and>
          m = MapboxRequest a (encode_token sid (idx + j))"
        proof cases
          case 1
          with VStr ne show ?thesis by (intro exI [of _ 0]) simp
        next
          case 2
          with s(3) obtain j b where "j < length rs" "get_title (rs ! j) = VStr b" "b \<noteq> []"
            "m = MapboxRequest b (encode_token sid (Suc idx + j))" by blast
          then show ?thesis by (intro exI [of _ "Suc j"]) simp
        qed
      qed
      with s VStr ne show ?thesis
        by (intro exI [of _ "MapboxRequest a (encode_token sid idx) # sent"]) (simp add: Let_def)
    qed (use True in \<open>simp_all add: Let_def\<close>)
  qed
qed

lemma geocode_loop_sessions: "sessions (snd (geocode_loop sid idx rs st)) = sessions st"
  by (induction rs arbitrary: idx st) (auto simp: Let_def split: pyval.splits)

lemma geocode_loop_all:
  "length titles = length rs \<Longrightarrow>
   \<forall>j<length rs. get_title (rs ! j) = VStr (titles ! j) \<and> titles ! j \<noteq> [] \<Longrightarrow>
   geocode_loop sid idx rs st =
     (None, st\<lparr>outbox := outbox st @
        map (\<lambda>j. MapboxRequest (titles ! j) (encode_token sid (idx + j))) [0..<length rs]\<rparr>)"
proof (induction rs arbitrary: idx st titles)
  case Nil
  then show ?case by simp
next
  case (Cons r rs)
  then obtain t ts where t: "titles = t # ts" by (cases titles) auto
  with Cons.prems have r: "get_title r = VStr t" "t \<noteq> []" by auto
  from Cons.prems t have "length ts = length rs"
    "\<forall>j<length rs. get_title (rs ! j) = VStr (ts ! j) \<and> ts ! j \<noteq> []" by auto
  from Cons.IH [OF this, of "Suc idx" "send (MapboxRequest t (encode_token sid idx)) st"] r t
  show ?case
    by (simp add: Let_def send_def map_upt_Suc del: upt_Suc)
qed

lemma the_session_geocode_loop [simp]:
  "the_session (snd (geocode_loop sid idx rs st)) sid' = the_session st sid'"
  by (simp add: the_session_def geocode_loop_sessions)

lemma geocode_loop_each:
  "\<forall>r\<in>set rs. truthy (get_title r) \<longrightarrow> (\<exists>a. get_title r = VStr a) \<Longrightarrow>
   fst (geocode_loop sid idx rs st) = None \<and>
   (\<forall>j<length rs. \<forall>a. get_title (rs ! j) = VStr a \<and> a \<noteq> [] \<longrightarrow>
      MapboxRequest a (encode_token sid (idx + j)) \<in>
        set (sent_by st (snd (geocode_loop sid idx rs st))))"
proof (induction rs arbitrary: idx st)
  case Nil
  then show ?case by simp
next
  case (Cons r rs)
  then have ok: "\<forall>r\<in>set rs. truthy (get_title r) \<longrightarrow> (\<exists>a. get_title r = VStr a)" by simp
  show ?case
  proof (cases "truthy (get_title r)")
    case False
    have step: "geocode_loop sid idx (r # rs) st = geocode_loop sid (Suc idx) rs st"
      using False by (simp add: Let_def)
    from Cons.IH [OF ok, of "Suc idx" st] have
      ih: "fst (geocode_loop sid (Suc idx) rs st) = None"
        "\<forall>j<length rs. \<forall>a. get_title (rs ! j) = VStr a \<and> a \<noteq> [] \<longrightarrow>
          MapboxRequest a (encode_token sid (Suc idx + j)) \<in>
            set (sent_by st (snd (geocode_loop sid (Suc idx) rs st)))" by blast+
    have "\<forall>j<length (r # rs). \<forall>a. get_title ((r # rs) ! j) = VStr a \<and> a \<noteq> [] \<longrightarrow>
      MapboxRequest a (encode_token sid (idx + j)) \<in>
        set (sent_by st (snd (geocode_loop sid (Suc idx) rs st)))"
    proof (intro allI impI)
      fix j a assume j: "j < length (r # rs)" and t: "get_title ((r # rs) ! j) = VStr a \<and> a \<noteq> []"
      show "MapboxRequest a (encode_token sid (idx + j)) \<in>
        set (sent_by st (snd (geocode_loop sid (Suc idx) rs st)))"
      proof (cases j)
        case 0
        with t False show ?thesis by simp
      next
        case (Suc k)
        with j t ih(2) show ?thesis by simp
      qed
    qed
    with ih(1) step show ?thesis by simp
  next
    case True
    with Cons.prems obtain b where b: "get_title r = VStr b" by auto
    with True have ne: "b \<noteq> []" by simp
    let ?m = "MapboxRequest b (encode_token sid idx)"
    let ?st = "send ?m st"
    have step: "geocode_loop sid idx (r # rs) st = geocode_loop sid (Suc idx) rs ?st"
      using b ne by (simp add: Let_def)
    from geocode_loop_sent [of sid "Suc idx" rs ?st] obtain sent where
      sent: "outbox (snd (geocode_loop sid (Suc idx) rs ?st)) = outbox ?st @ sent" by blast
    then have sb: "sent_by st (snd (geocode_loop sid (Suc idx) rs ?st)) = ?m # sent"
      "sent_by ?st (snd (geocode_loop sid (Suc idx) rs ?st)) = sent"
      by (simp_all add: sent_by_def)
    from Cons.IH [OF ok, of "Suc idx" ?st] have
      ih: "fst (geocode_loop sid (Suc idx) rs ?st) = None"
        "\<forall>j<length rs. \<forall>a. get_title (rs ! j) = VStr a \<and> a \<noteq> [] \<longrightarrow>
          MapboxRequest a (encode_token sid (Suc idx + j)) \<in>
            set (sent_by ?st (snd (geocode_loop sid (Suc idx) rs ?st)))" by blast+
    have "\<forall>j<length (r # rs). \<forall>a. get_title ((r # rs) ! j) = VStr a \<and> a \<noteq> [] \<longrightarrow>
      MapboxRequest a (encode_token sid (idx + j)) \<in> set (?m # sent)"
    proof (intro allI impI)
      fix j a assume j: "j < length (r # rs)" and t: "get_title ((r # rs) ! j) = VStr a \<and> a \<noteq> []"
      show "MapboxRequest a (encode_token sid (idx + j)) \<in> set (?m # sent)"
      proof (cases j)
        case 0
        with t b show ?thesis by simp
      next
        case (Suc k)
        with j t ih(2) sb(2) show ?thesis by simp
      qed
    qed
    with ih(1) step sb(1) show ?thesis by simp
  qed
qed

lemma upt_Suc_shift: "[0..<Suc n] = 0 # map Suc [0..<n]"
  by (simp add: upt_conv_Cons map_Suc_upt del: upt_Suc)

lemma geocode_loop_exact:
  "\<forall>r\<in>set rs. truthy (get_title r) \<longrightarrow> (\<exists>a. get_title r = VStr a) \<Longrightarrow>
   geocode_loop sid idx rs st =
     (None, st\<lparr>outbox := outbox st @
        map (\<lambda>j. MapboxRequest (title_text (rs ! j)) (encode_token sid (idx + j)))
          (filter (\<lambda>j. truthy (get_title (rs ! j))) [0..<length rs])\<rparr>)"
proof (induction rs arbitrary: idx st)
  case Nil
  then show ?case by simp
next
  case (Cons r rs)
  then have ok: "\<forall>r\<in>set rs. truthy (get_title r) \<longrightarrow> (\<exists>a. get_title r = VStr a)" by simp
  have shift: "map (\<lambda>j. MapboxRequest (title_text ((r # rs) ! j)) (encode_token sid (idx + j)))
          (filter (\<lambda>j. truthy (get_title ((r # rs) ! j))) (map Suc [0..<length rs])) =
        map (\<lambda>j. MapboxRequest (title_text (rs ! j)) (encode_token sid (Suc idx + j)))
          (filter (\<lambda>j. truthy (get_title (rs ! j))) [0..<length rs])"
    by (simp add: filter_map o_def)
  show ?case
  proof (cases "truthy (get_title r)")
    case False
    with Cons.IH [OF ok, of "Suc idx" st] shift show ?thesis
      by (simp add: Let_def upt_Suc_shift del: upt_Suc)
  next
    case True
    with Cons.prems obtain a where a: "get_title r = VStr a" by auto
    with True Cons.IH [OF ok, of "Suc idx" "send (MapboxRequest a (encode_token sid idx)) st"] shift
    show ?thesis
      by (simp add: Let_def upt_Suc_shift title_text_def send_def del: upt_Suc)
  qed
qed

lemma handle_research_loop:
  "raw_search_results msg = Some results \<Longrightarrow> results \<noteq> [] \<Longrightarrow>
   handle_research st msg =
     geocode_loop (rs_session_id msg) 0 (take 5 results)
       (update_session (rs_session_id msg)
          (\<lambda>s. s\<lparr>research := Some msg, geocoded_results := Some [],
                  geocoding_count := Some 0, poi_results := Some [],
                  poi_count := Some 0\<rparr>) st)"
  by (simp add: handle_research_def Let_def)

lemma sent_by_update [simp]: "sent_by (update_session sid f st) st' = sent_by st st'"
  by (simp add: sent_by_def)

text \<open>
  C5 (amended). For a property-search reply with more than five candidates, at most five
  geocoding requests are sent; each one carries the composite token of an index below 5
  whose candidate has a non-empty string title, with that title as the address, so no
  candidate at index 5 or beyond is ever geocoded. Provided every truthy title among the
  first five candidates is a string, the requests sent are exactly one for each index
  below 5 whose title is non-empty, in index order; in particular, when all five titles
  are non-empty strings, they are the five requests for indices 0 to 4.
\<close>

theorem fanout_capped:
  assumes "raw_search_results msg = Some results" and "5 < length results"
  shows "length (sent_by st (snd (handle_research st msg))) \<le> 5 \<and>
    (\<forall>m\<in>set (sent_by st (snd (handle_research st msg))).
       \<exists>j<5. \<exists>a. get_title (results ! j) = VStr a \<and> a \<noteq> [] \<and>
          m = MapboxRequest a (encode_token (rs_session_id msg) j)) \<and>
    ((\<forall>j<5. truthy (get_title (results ! j)) \<longrightarrow> (\<exists>a. get_title (results ! j) = VStr a)) \<longrightarrow>
       sent_by st (snd (handle_research st msg)) =
         map (\<lambda>j. MapboxRequest (title_text (results ! j)) (encode_token (rs_session_id msg) j))
           (filter (\<lambda>j. truthy (get_title (results ! j))) [0..<5])) \<and>
    (length titles = 5 \<longrightarrow>
       (\<forall>j<5. get_title (results ! j) = VStr (titles ! j) \<and> titles ! j \<noteq> []) \<longrightarrow>
       sent_by st (snd (handle_research st msg)) =
         map (\<lambda>j. MapboxRequest (titles ! j) (encode_token (rs_session_id msg) j)) [0..<5])"
proof -
  let ?sid = "rs_session_id msg"
  let ?st1 = "update_session ?sid
          (\<lambda>s. s\<lparr>research := Some msg, geocoded_results := Some [],
                  geocoding_count := Some 0, poi_results := Some [],
                  poi_count := Some 0\<rparr>) st"
  let ?rs = "take 5 results"
  from assms have ne: "results \<noteq> []" by auto
  have hr: "handle_research st msg = geocode_loop ?sid 0 ?rs ?st1"
    by (rule handle_research_loop [OF assms(1) ne])
  from assms(2) have len: "length ?rs = 5" by simp
  have nth: "\<And>j. j < 5 \<Longrightarrow> ?rs ! j = results ! j" by simp
  from geocode_loop_sent [of ?sid 0 ?rs ?st1] obtain sent where
    sent: "outbox (snd (geocode_loop ?sid 0 ?rs ?st1)) = outbox ?st1 @ sent"
      "length sent \<le> length ?rs"
      "\<forall>m\<in>set sent. \<exists>j<length ?rs. \<exists>a. get_title (?rs ! j) = VStr a \<and> a \<noteq> [] \<and>
          m = MapboxRequest a (encode_token ?sid (0 + j))" by blast
  have sb: "sent_by st (snd (handle_research st msg)) = sent"
    using sent(1) by (simp add: hr sent_by_def)
  have c1: "length (sent_by st (snd (handle_research st msg))) \<le> 5"
    using sent(2) len sb by simp
  have c2: "\<forall>m\<in>set (sent_by st (snd (handle_research st msg))).
       \<exists>j<5. \<exists>a. get_title (results ! j) = VStr a \<and> a \<noteq> [] \<and>
          m = MapboxRequest a (encode_token ?sid j)"
    using sent(3) len sb nth by (metis add_0)
  have c3: "(\<forall>j<5. truthy (get_title (results ! j)) \<longrightarrow> (\<exists>a. get_title (results ! j) = VStr a)) \<longrightarrow>
       sent_by st (snd (handle_research st msg)) =
         map (\<lambda>j. MapboxRequest (title_text (results ! j)) (encode_token ?sid j))
           (filter (\<lambda>j. truthy (get_title (results ! j))) [0..<5])"
  proof
    assume a: "\<forall>j<5. truthy (get_title (results ! j)) \<longrightarrow> (\<exists>a. get_title (results ! j) = VStr a)"
    have ok: "\<forall>r\<in>set ?rs. truthy (get_title r) \<longrightarrow> (\<exists>a. get_title r = VStr a)"
    proof
      fix r assume "r \<in> set ?rs"
      then obtain j where "j < length ?rs" "?rs ! j = r" by (meson in_set_conv_nth)
      with a len nth show "truthy (get_title r) \<longrightarrow> (\<exists>a. get_title r = VStr a)" by metis
    qed
    have f: "filter (\<lambda>j. truthy (get_title (?rs ! j))) [0..<5] =
        filter (\<lambda>j. truthy (get_title (results ! j))) [0..<5]"
      by (rule filter_cong) (simp_all add: nth)
    have m: "map (\<lambda>j. MapboxRequest (title_text (?rs ! j)) (encode_token ?sid (0 + j)))
          (filter (\<lambda>j. truthy (get_title (results ! j))) [0..<5]) =
        map (\<lambda>j. MapboxRequest (title_text (results ! j)) (encode_token ?sid j))
          (filter (\<lambda>j. truthy (get_title (results ! j))) [0..<5])"
      by (rule map_cong) (simp_all add: nth)
    have up: "[0..<length ?rs] = [0..<5]" using len by simp
    have "sent_by st (snd (handle_research st msg)) =
        map (\<lambda>j. MapboxRequest (title_text (?rs ! j)) (encode_token ?sid (0 + j)))
          (filter (\<lambda>j. truthy (get_title (?rs ! j))) [0..<length ?rs])"
      unfolding hr geocode_loop_exact [OF ok, of ?sid 0 ?st1] by (simp add: sent_by_def)
    then have "sent_by st (snd (handle_research st msg)) =
        map (\<lambda>j. MapboxRequest (title_text (?rs ! j)) (encode_token ?sid (0 + j)))
          (filter (\<lambda>j. truthy (get_title (?rs ! j))) [0..<5])"
      unfolding up .
    then show "sent_by st (snd (handle_research st msg)) =
         map (\<lambda>j. MapboxRequest (title_text (results ! j)) (encode_token ?sid j))
           (filter (\<lambda>j. truthy (get_title (results ! j))) [0..<5])"
      unfolding f m .
  qed
  have c4: "length titles = 5 \<longrightarrow>
       (\<forall>j<5. get_title (results ! j) = VStr (titles ! j) \<and> titles ! j \<noteq> []) \<longrightarrow>
       sent_by st (snd (handle_research st msg)) =
         map (\<lambda>j. MapboxRequest (titles ! j) (encode_token ?sid j)) [0..<5]"
  proof (intro impI)
    assume l: "length titles = 5"
      and t: "\<forall>j<5. get_title (results ! j) = VStr (titles ! j) \<and> titles ! j \<noteq> []"
    from l len have l': "length titles = length ?rs" by simp
    from t len nth have "\<forall>j<length ?rs. get_title (?rs ! j) = VStr (titles ! j) \<and> titles ! j \<noteq> []"
      by simp
    from geocode_loop_all [OF l' this, of ?sid 0 ?st1] len
    show "sent_by st (snd (handle_research st msg)) =
         map (\<lambda>j. MapboxRequest (titles ! j) (encode_token ?sid j)) [0..<5]"
      by (simp add: hr sent_by_def del: upt_Suc)
  qed
  from c1 c2 c3 c4 show ?thesis by blast
qed

lemma all_less_5: "(\<forall>j<5. P j) = (P 0 \<and> P 1 \<and> P 2 \<and> P 3 \<and> P (4::nat))"
proof
  assume a: "P 0 \<and> P 1 \<and> P 2 \<and> P 3 \<and> P 4"
  show "\<forall>j<5. P j"
  proof (intro allI impI)
    fix j :: nat assume "j < 5"
    then have "j = 0 \<or> j = 1 \<or> j = 2 \<or> j = 3 \<or> j = 4" by arith
    with a show "P j" by auto
  qed
qed simp

lemmas research_eval = handle_research_def research_reply_def candidate_def get_title_def
  initial_state_def Let_def sent_by_def update_session_def send_def the_session_def
  empty_session_def

theorem fanout_capped_witness:
  "raw_search_results (research_reply ''s'' eight_candidates) = Some eight_candidates \<and>
   5 < length eight_candidates \<and>
   sent_by initial_state (snd (handle_research initial_state (research_reply ''s'' eight_candidates))) =
     [MapboxRequest ''A'' ''s__0'', MapboxRequest ''B'' ''s__1'', MapboxRequest ''C'' ''s__2'',
      MapboxRequest ''D'' ''s__3'', MapboxRequest ''E'' ''s__4'']"
proof -
  have h1: "raw_search_results (research_reply ''s'' eight_candidates) = Some eight_candidates"
    by (simp add: research_reply_def)
  have h2: "5 < length eight_candidates" by (simp add: eight_candidates_def)
  have h3: "length [''A'', ''B'', ''C'', ''D'', ''E''] = 5" by simp
  have h4: "\<forall>j<5. get_title (eight_candidates ! j) = VStr ([''A'', ''B'', ''C'', ''D'', ''E''] ! j) \<and>
      [''A'', ''B'', ''C'', ''D'', ''E''] ! j \<noteq> []"
    by (simp add: all_less_5 eight_candidates_def candidate_def get_title_def)
  have e: "map (\<lambda>j. MapboxRequest ([''A'', ''B'', ''C'', ''D'', ''E''] ! j) (encode_token ''s'' j)) [0..<5] =
     [MapboxRequest ''A'' ''s__0'', MapboxRequest ''B'' ''s__1'', MapboxRequest ''C'' ''s__2'',
      MapboxRequest ''D'' ''s__3'', MapboxRequest ''E'' ''s__4'']"
    by (simp add: upt_rec encode_token_def str_nat.simps digit_char_def)
  have sid: "rs_session_id (research_reply ''s'' eight_candidates) = ''s''"
    by (simp add: research_reply_def)
  note all = fanout_capped [OF h1 h2, of initial_state "[''A'', ''B'', ''C'', ''D'', ''E'']"]
  note last = all [THEN conjunct2, THEN conjunct2, THEN conjunct2, THEN mp, OF h3, THEN mp, OF h4]
  have "sent_by initial_state (snd (handle_research initial_state (research_reply ''s'' eight_candidates))) =
     map (\<lambda>j. MapboxRequest ([''A'', ''B'', ''C'', ''D'', ''E''] ! j) (encode_token ''s'' j)) [0..<5]"
    using last unfolding sid .
  with h1 h2 e show ?thesis by simp
qed

text \<open>
  C5 as stated fails: of eight candidates, the third with an empty title, only four are
  geocoded (indices 0, 1, 3, 4).
\<close>

theorem fanout_capped_counterexample:
  "raw_search_results (research_reply ''s'' eight_with_gap) = Some eight_with_gap \<and>
   length eight_with_gap = 8 \<and>
   sent_by initial_state (snd (handle_research initial_state (research_reply ''s'' eight_with_gap))) =
     [MapboxRequest ''A'' ''s__0'', MapboxRequest ''B'' ''s__1'',
      MapboxRequest ''D'' ''s__3'', MapboxRequest ''E'' ''s__4''] \<and>
   length (sent_by initial_state (snd (handle_research initial_state (research_reply ''s'' eight_with_gap)))) \<noteq> 5"
  by (simp add: research_eval eight_with_gap_def encode_token_def str_nat.simps digit_char_def)


section \<open>Properties of the REST handler\<close>

lemma foldl_deliver_inv:
  assumes "\<And>st r. I st \<Longrightarrow> R r \<Longrightarrow> I (deliver st r)"
  shows "I st \<Longrightarrow> \<forall>r\<in>set b. R r \<Longrightarrow> I (foldl deliver st b)"
  by (induction b arbitrary: st) (auto intro: assms)

lemma await_point_inv:
  assumes "\<And>st r. I st \<Longrightarrow> R r \<Longrightarrow> I (deliver st r)"
    and "I st" and "\<forall>b\<in>set (take 1 sch). \<forall>r\<in>set b. R r"
  shows "I (fst (await_point st sch))"
  using assms(2,3) foldl_deliver_inv [of I R, OF assms(1)]
  by (cases sch) (auto simp: await_point_def)

lemma await_point_sched: "snd (await_point st sch) = drop 1 sch"
  by (cases sch) (auto simp: await_point_def)

lemma wait_until_inv:
  assumes "\<And>st r. I st \<Longrightarrow> R r \<Longrightarrow> I (deliver st r)"
  shows "I st \<Longrightarrow> \<forall>b\<in>set (take n sch). \<forall>r\<in>set b. R r \<Longrightarrow>
         I (fst (snd (wait_until n cond sid st sch)))"
proof (induction n arbitrary: st sch)
  case 0
  then show ?case by simp
next
  case (Suc n)
  show ?case
  proof (cases "cond (the_session st sid)")
    case True
    with Suc.prems show ?thesis by simp
  next
    case False
    obtain st' sch' where a: "await_point st sch = (st', sch')" by (cases "await_point st sch")
    have "\<forall>b\<in>set (take 1 sch). \<forall>r\<in>set b. R r"
      using Suc.prems(2) by (cases sch) auto
    from await_point_inv [of I R, OF assms Suc.prems(1) this] a have i: "I st'" by simp
    from a await_point_sched [of st sch] have s: "sch' = drop 1 sch" by simp
    have "\<forall>b\<in>set (take n sch'). \<forall>r\<in>set b. R r"
      using Suc.prems(2) s by (cases sch) auto
    from Suc.IH [OF i this] a False show ?thesis by simp
  qed
qed

lemma wait_until_sched: "\<exists>k\<le>n. snd (snd (wait_until n cond sid st sch)) = drop k sch"
proof (induction n arbitrary: st sch)
  case 0
  then show ?case by simp
next
  case (Suc n)
  show ?case
  proof (cases "cond (the_session st sid)")
    case True
    then show ?thesis by (intro exI [of _ 0]) simp
  next
    case False
    obtain st' sch' where a: "await_point st sch = (st', sch')" by (cases "await_point st sch")
    from a await_point_sched [of st sch] have s: "sch' = drop 1 sch" by simp
    from Suc.IH [of st' sch'] obtain k where "k \<le> n"
      "snd (snd (wait_until n cond sid st' sch')) = drop k sch'" by blast
    with a False s show ?thesis by (intro exI [of _ "Suc k"]) simp
  qed
qed

lemma wait_until_False:
  assumes "\<And>st r. I st \<Longrightarrow> R r \<Longrightarrow> I (deliver st r)"
    and "\<And>st. I st \<Longrightarrow> \<not> cond (the_session st sid)"
  shows "I st \<Longrightarrow> \<forall>b\<in>set (take (n - 1) sch). \<forall>r\<in>set b. R r \<Longrightarrow>
         fst (wait_until n cond sid st sch) = False \<and>
         snd (snd (wait_until n cond sid st sch)) = drop n sch"
proof (induction n arbitrary: st sch)
  case 0
  then show ?case by simp
next
  case (Suc n)
  obtain st' sch' where a: "await_point st sch = (st', sch')" by (cases "await_point st sch")
  from a await_point_sched [of st sch] have s: "sch' = drop 1 sch" by simp
  from Suc.prems(1) assms(2) have c: "\<not> cond (the_session st sid)" by simp
  show ?case
  proof (cases n)
    case 0
    with a c s show ?thesis by simp
  next
    case (Suc k)
    have "\<forall>b\<in>set (take 1 sch). \<forall>r\<in>set b. R r"
      using Suc.prems(2) Suc by (cases sch) auto
    from await_point_inv [of I R, OF assms(1) Suc.prems(1) this] a have i: "I st'" by simp
    have "\<forall>b\<in>set (take (n - 1) sch'). \<forall>r\<in>set b. R r"
      using Suc.prems(2) s Suc by (cases sch) auto
    from Suc.IH [OF i this] a c s show ?thesis by simp
  qed
qed

lemma digit_char_not_underscore: "d < 10 \<Longrightarrow> CHR ''_'' \<noteq> digit_char d"
proof
  assume d: "d < 10" and e: "CHR ''_'' = digit_char d"
  have n: "digit_val (CHR ''_'') = None" by (simp add: digit_val_def)
  from digit_val_digit_char [OF d] have "digit_val (CHR ''_'') = Some d" unfolding e [symmetric] .
  with n show False by simp
qed

lemma str_nat_no_underscore: "CHR ''_'' \<notin> set (str_nat n)"
proof (induction n rule: str_nat.induct)
  case (1 n)
  show ?case
  proof (cases "n < 10")
    case True
    then have "str_nat n = [digit_char n]" by (subst str_nat.simps) simp
    with True show ?thesis using digit_char_not_underscore [of n] by simp
  next
    case False
    then have e: "str_nat n = str_nat (n div 10) @ [digit_char (n mod 10)]"
      by (subst str_nat.simps) simp
    have "n mod 10 < 10" by simp
    from digit_char_not_underscore [OF this] 1 [OF False] show ?thesis
      unfolding e by simp
  qed
qed

lemma append_sep_unique:
  "x \<notin> set a \<Longrightarrow> x \<notin> set b \<Longrightarrow> a @ x # r1 = b @ x # r2 \<Longrightarrow> a = b \<and> r1 = r2"
proof (induction a arbitrary: b)
  case Nil
  then show ?case by (cases b) auto
next
  case (Cons y a)
  then show ?case by (cases b) auto
qed

lemma encode_token_inj_session:
  assumes "encode_token s i = encode_token t j"
  shows "s = t \<and> i = j"
proof -
  from assms have "rev (s @ CHR ''_'' # CHR ''_'' # str_nat i) =
      rev (t @ CHR ''_'' # CHR ''_'' # str_nat j)"
    by (simp add: encode_token_def)
  then have eq: "rev (str_nat i) @ CHR ''_'' # (CHR ''_'' # rev s) =
      rev (str_nat j) @ CHR ''_'' # (CHR ''_'' # rev t)"
    by simp
  have n1: "CHR ''_'' \<notin> set (rev (str_nat i))" and n2: "CHR ''_'' \<notin> set (rev (str_nat j))"
    by (simp_all add: str_nat_no_underscore)
  have "rev (str_nat i) = rev (str_nat j) \<and> CHR ''_'' # rev s = CHR ''_'' # rev t"
    by (rule append_sep_unique [OF n1 n2 eq])
  then have "str_nat i = str_nat j" and "s = t" by simp_all
  with str_nat_inj [of i j] show ?thesis by simp
qed

text \<open>Where each request sent by a reply handler comes from.\<close>

lemma deliver_outbox: "outbox (deliver st r) = outbox st @ sent_by st (deliver st r)"
proof (cases r)
  case (ResearchResponse m)
  show ?thesis
  proof (cases "raw_search_results m")
    case None
    with ResearchResponse show ?thesis by (simp add: handle_research_def sent_by_def)
  next
    case (Some results)
    show ?thesis
    proof (cases "results = []")
      case True
      with Some ResearchResponse show ?thesis by (simp add: handle_research_def sent_by_def)
    next
      case False
      from geocode_loop_sent obtain sent where
        "outbox (snd (geocode_loop (rs_session_id m) 0 (take 5 results)
           (update_session (rs_session_id m)
          (\<lambda>s. s\<lparr>research := Some m, geocoded_results := Some [],
                  geocoding_count := Some 0, poi_results := Some [],
                  poi_count := Some 0\<rparr>) st))) = outbox (update_session (rs_session_id m)
          (\<lambda>s. s\<lparr>research := Some m, geocoded_results := Some [],
                  geocoding_count := Some 0, poi_results := Some [],
                  poi_count := Some 0\<rparr>) st) @ sent" by blast
      with ResearchResponse show ?thesis
        by (simp add: handle_research_loop [OF Some False] sent_by_def)
    qed
  qed
qed (auto simp: sent_by_def handle_scoping_def handle_general_def handle_mapbox_def
      handle_local_discovery_def Let_def split: option.splits sum.splits token.splits)

lemma deliver_sent_origin:
  assumes "m \<in> set (sent_by st (deliver st r))"
  shows "case m of
           ScopingRequest u s \<Rightarrow> False
         | ResearchRequest q s \<Rightarrow> (\<exists>msg. r = ScopingResponse msg \<and> sc_session_id msg = s)
         | GeneralRequest q s \<Rightarrow> (\<exists>msg. r = ScopingResponse msg \<and> sc_session_id msg = s)
         | MapboxRequest a tok \<Rightarrow>
             (\<exists>msg j. r = ResearchResponse msg \<and> j < 5 \<and> tok = encode_token (rs_session_id msg) j)
         | LocalDiscoveryRequest la lo s i \<Rightarrow>
             (\<exists>msg. r = MapboxResponse msg \<and>
                decode_token (mb_session_id msg) = Inr (Composite s i))"
proof (cases r)
  case (ResearchResponse msg)
  show ?thesis
  proof (cases "raw_search_results msg")
    case None
    with ResearchResponse assms show ?thesis by (simp add: handle_research_def sent_by_def)
  next
    case (Some results)
    show ?thesis
    proof (cases "results = []")
      case True
      with Some ResearchResponse assms show ?thesis by (simp add: handle_research_def sent_by_def)
    next
      case False
      let ?st1 = "update_session (rs_session_id msg)
          (\<lambda>s. s\<lparr>research := Some msg, geocoded_results := Some [],
                  geocoding_count := Some 0, poi_results := Some [],
                  poi_count := Some 0\<rparr>) st"
      from geocode_loop_sent [of "rs_session_id msg" 0 "take 5 results" ?st1] obtain sent where
        s: "outbox (snd (geocode_loop (rs_session_id msg) 0 (take 5 results) ?st1)) = outbox ?st1 @ sent"
        "\<forall>m\<in>set sent. \<exists>j<length (take 5 results). \<exists>a. get_title (take 5 results ! j) = VStr a \<and> a \<noteq> [] \<and>
          m = MapboxRequest a (encode_token (rs_session_id msg) (0 + j))" by blast
      from s(1) ResearchResponse have "sent_by st (deliver st r) = sent"
        by (simp add: handle_research_loop [OF Some False] sent_by_def)
      with assms s(2) obtain j a where "j < length (take 5 results)"
        "m = MapboxRequest a (encode_token (rs_session_id msg) j)" by auto
      with ResearchResponse show ?thesis by auto
    qed
  qed
next
  case (ScopingResponse msg)
  with assms show ?thesis
    by (auto simp: sent_by_def handle_scoping_def Let_def split: option.splits if_splits)
next
  case (MapboxResponse msg)
  with assms show ?thesis
    by (auto simp: sent_by_def handle_mapbox_def Let_def split: option.splits sum.splits token.splits if_splits)
qed (use assms in \<open>auto simp: sent_by_def handle_general_def handle_local_discovery_def Let_def\<close>)

lemma deliver_not_for:
  assumes "\<not> reply_for sid r" and "m \<in> set (sent_by st (deliver st r))"
  shows "\<not> request_for sid m"
proof (cases m)
  case (MapboxRequest a tok)
  with deliver_sent_origin [OF assms(2)] obtain msg j where
    j: "r = ResearchResponse msg" "tok = encode_token (rs_session_id msg) j" by auto
  with assms(1) have "rs_session_id msg \<noteq> sid" by simp
  with j MapboxRequest show ?thesis by (auto dest: encode_token_inj_session)
qed (use deliver_sent_origin [OF assms(2)] assms(1) in \<open>auto\<close>)

lemma deliver_scoping_none:
  assumes "\<forall>m. r = ScopingResponse m \<longrightarrow> sc_session_id m \<noteq> sid"
    and "scoping (the_session st sid) = None"
  shows "scoping (the_session (deliver st r) sid) = None"
proof (cases r)
  case (ResearchResponse m)
  then show ?thesis using assms(2)
    by (cases "raw_search_results m") (auto simp: handle_research_def Let_def)
qed (use assms in \<open>auto simp: handle_scoping_def handle_general_def handle_mapbox_def
      handle_local_discovery_def Let_def split: option.splits sum.splits token.splits\<close>)

lemma outbox_ensure [simp]: "outbox (ensure_session sid st) = outbox st"
  by (simp add: ensure_session_def split: option.splits)

lemma the_session_ensure [simp]: "the_session (ensure_session sid st) sid' = the_session st sid'"
  by (simp add: ensure_session_def the_session_def split: option.splits)

lemma take_drop_subset: "set (take n (drop 1 sch)) \<subseteq> set (take (Suc n) sch)"
  by (cases sch) auto

lemma handle_chat_unfold:
  "handle_chat st message sid sch =
     (let st1 = send (ScopingRequest message sid)
                  (update_session sid (\<lambda>s. s\<lparr>scoping := None, research := None\<rparr>)
                     (ensure_session sid st));
          st2 = fst (await_point st1 sch);
          w = wait_until 60 (\<lambda>s. scoping s \<noteq> None) sid st2 (drop 1 sch)
      in if \<not> fst w
         then (error_response (Message ''Timeout waiting for scoping agent''), snd w)
         else (case scoping (the_session (fst (snd w)) sid) of
                 None \<Rightarrow> (error_response (ExceptionMessage KeyError), snd w)
               | Some scoping_msg \<Rightarrow> after_scoping scoping_msg sid (fst (snd w)) (snd (snd w))))"
proof -
  let ?st1 = "send (ScopingRequest message sid)
                  (update_session sid (\<lambda>s. s\<lparr>scoping := None, research := None\<rparr>)
                     (ensure_session sid st))"
  obtain st2 sch2 where a: "await_point ?st1 sch = (st2, sch2)"
    by (cases "await_point ?st1 sch")
  with await_point_sched [of ?st1 sch] have s: "sch2 = drop 1 sch" by simp
  obtain found st3 sch3 where
    w: "wait_until 60 (\<lambda>s. scoping s \<noteq> None) sid st2 (drop 1 sch) = (found, st3, sch3)"
    by (cases "wait_until 60 (\<lambda>s. scoping s \<noteq> None) sid st2 (drop 1 sch)")
  show ?thesis
    unfolding handle_chat_def Let_def a s w prod.case fst_conv snd_conv by (rule refl)
qed

lemma scoping_timeout_status:
  assumes "\<forall>b\<in>set (take 60 sch). \<forall>r\<in>set b. \<forall>m. r = ScopingResponse m \<longrightarrow> sc_session_id m \<noteq> sid"
  shows "fst (handle_chat st message sid sch) =
           error_response (Message ''Timeout waiting for scoping agent'')"
proof -
  let ?I = "\<lambda>st'. scoping (the_session st' sid) = None"
  let ?R = "\<lambda>r. \<forall>m. r = ScopingResponse m \<longrightarrow> sc_session_id m \<noteq> sid"
  let ?st1 = "send (ScopingRequest message sid)
                  (update_session sid (\<lambda>s. s\<lparr>scoping := None, research := None\<rparr>)
                     (ensure_session sid st))"
  have step: "\<And>st r. ?I st \<Longrightarrow> ?R r \<Longrightarrow> ?I (deliver st r)"
    by (rule deliver_scoping_none)
  have i1: "?I ?st1" by simp
  have "\<forall>b\<in>set (take 1 sch). \<forall>r\<in>set b. ?R r"
    using assms by (cases sch) auto
  from await_point_inv [of ?I ?R, OF step i1 this]
  have i2: "?I (fst (await_point ?st1 sch))" .
  have "\<forall>b\<in>set (take (60 - 1) (drop 1 sch)). \<forall>r\<in>set b. ?R r"
    using assms take_drop_subset [of 59 sch] by auto
  from wait_until_False [of ?I ?R "\<lambda>s. scoping s \<noteq> None" sid, OF step _ i2 this]
  have "fst (wait_until 60 (\<lambda>s. scoping s \<noteq> None) sid (fst (await_point ?st1 sch)) (drop 1 sch)) = False"
    by simp
  then show ?thesis by (simp add: handle_chat_unfold Let_def)
qed

lemma scoping_timeout_sent:
  assumes R_P: "\<And>st r m. R r \<Longrightarrow> m \<in> set (sent_by st (deliver st r)) \<Longrightarrow> P m"
    and no_sc: "\<And>r. R r \<Longrightarrow> \<forall>m. r = ScopingResponse m \<longrightarrow> sc_session_id m \<noteq> sid"
    and sch: "\<forall>b\<in>set (take 61 sch). \<forall>r\<in>set b. R r"
  shows "\<exists>rest. sent_by st (fst (snd (handle_chat st message sid sch))) =
            ScopingRequest message sid # rest \<and> (\<forall>m\<in>set rest. P m)"
proof -
  let ?I = "\<lambda>st'. scoping (the_session st' sid) = None \<and>
      (\<exists>rest. outbox st' = outbox st @ ScopingRequest message sid # rest \<and> (\<forall>m\<in>set rest. P m))"
  let ?st1 = "send (ScopingRequest message sid)
                  (update_session sid (\<lambda>s. s\<lparr>scoping := None, research := None\<rparr>)
                     (ensure_session sid st))"
  have step: "\<And>st' r. ?I st' \<Longrightarrow> R r \<Longrightarrow> ?I (deliver st' r)"
  proof -
    fix st' r assume i: "?I st'" and r: "R r"
    from i obtain rest where rest: "outbox st' = outbox st @ ScopingRequest message sid # rest"
      "\<forall>m\<in>set rest. P m" by blast
    from i no_sc [OF r] have s: "scoping (the_session (deliver st' r) sid) = None"
      by (intro deliver_scoping_none) auto
    have "outbox (deliver st' r) =
        outbox st @ ScopingRequest message sid # (rest @ sent_by st' (deliver st' r))"
      using deliver_outbox [of st' r] rest(1) by simp
    moreover have "\<forall>m\<in>set (rest @ sent_by st' (deliver st' r)). P m"
      using rest(2) R_P [OF r] by auto
    ultimately show "?I (deliver st' r)" using s by blast
  qed
  have i1: "?I ?st1" by simp
  have "\<forall>b\<in>set (take 1 sch). \<forall>r\<in>set b. R r"
    using sch by (cases sch) auto
  from await_point_inv [of ?I R, OF step i1 this]
  have i2: "?I (fst (await_point ?st1 sch))" .
  have s60: "\<forall>b\<in>set (take 60 (drop 1 sch)). \<forall>r\<in>set b. R r"
    using sch take_drop_subset [of 60 sch] by auto
  then have s59: "\<forall>b\<in>set (take (60 - 1) (drop 1 sch)). \<forall>r\<in>set b. R r"
    using set_take_subset_set_take [of 59 60 "drop 1 sch"] by auto
  let ?w = "wait_until 60 (\<lambda>s. scoping s \<noteq> None) sid (fst (await_point ?st1 sch)) (drop 1 sch)"
  from wait_until_False [of ?I R "\<lambda>s. scoping s \<noteq> None" sid, OF step _ i2 s59]
  have f: "fst ?w = False" by simp
  from wait_until_inv [of ?I R, OF step i2 s60]
  have i3: "?I (fst (snd ?w))" .
  from f have "fst (snd (handle_chat st message sid sch)) = fst (snd ?w)"
    by (simp add: handle_chat_unfold Let_def)
  with i3 show ?thesis by (auto simp: sent_by_def)
qed

lemma scoping_timeout_until_return:
  assumes "\<forall>b\<in>set (take 60 sch). \<forall>r\<in>set b. \<forall>m. r = ScopingResponse m \<longrightarrow> sc_session_id m \<noteq> sid"
  shows "fst (handle_chat st message sid sch) =
           error_response (Message ''Timeout waiting for scoping agent'') \<and>
         ((\<forall>b\<in>set (take 61 sch). \<forall>r\<in>set b. \<forall>m. r = ScopingResponse m \<longrightarrow> sc_session_id m \<noteq> sid) \<longrightarrow>
            (\<exists>rest. sent_by st (fst (snd (handle_chat st message sid sch))) =
                ScopingRequest message sid # rest \<and>
              (\<forall>m\<in>set rest. (\<forall>q. m \<noteq> ResearchRequest q sid) \<and> (\<forall>q. m \<noteq> GeneralRequest q sid)))) \<and>
         ((\<forall>b\<in>set (take 61 sch). \<forall>r\<in>set b. \<not> reply_for sid r) \<longrightarrow>
            (\<exists>rest. sent_by st (fst (snd (handle_chat st message sid sch))) =
                ScopingRequest message sid # rest \<and>
              (\<forall>m\<in>set rest. \<not> request_for sid m)))"
proof (intro conjI impI)
  show "fst (handle_chat st message sid sch) =
           error_response (Message ''Timeout waiting for scoping agent'')"
    by (rule scoping_timeout_status [OF assms])
next
  assume a: "\<forall>b\<in>set (take 61 sch). \<forall>r\<in>set b. \<forall>m. r = ScopingResponse m \<longrightarrow> sc_session_id m \<noteq> sid"
  show "\<exists>rest. sent_by st (fst (snd (handle_chat st message sid sch))) =
                ScopingRequest message sid # rest \<and>
              (\<forall>m\<in>set rest. (\<forall>q. m \<noteq> ResearchRequest q sid) \<and> (\<forall>q. m \<noteq> GeneralRequest q sid))"
  proof (rule scoping_timeout_sent [where R = "\<lambda>r. \<forall>m. r = ScopingResponse m \<longrightarrow> sc_session_id m \<noteq> sid"])
    fix st' r m
    assume r: "\<forall>m. r = ScopingResponse m \<longrightarrow> sc_session_id m \<noteq> sid"
      and m: "m \<in> set (sent_by st' (deliver st' r))"
    from deliver_sent_origin [OF m] r
    show "(\<forall>q. m \<noteq> ResearchRequest q sid) \<and> (\<forall>q. m \<noteq> GeneralRequest q sid)"
      by (cases m) auto
  qed (use a in auto)
next
  assume a: "\<forall>b\<in>set (take 61 sch). \<forall>r\<in>set b. \<not> reply_for sid r"
  show "\<exists>rest. sent_by st (fst (snd (handle_chat st message sid sch))) =
                ScopingRequest message sid # rest \<and>
              (\<forall>m\<in>set rest. \<not> request_for sid m)"
  proof (rule scoping_timeout_sent [where R = "\<lambda>r. \<not> reply_for sid r"])
    fix st' r m
    assume "\<not> reply_for sid r" "m \<in> set (sent_by st' (deliver st' r))"
    then show "\<not> request_for sid m" by (rule deliver_not_for)
  next
    fix r assume "\<not> reply_for sid r"
    then show "\<forall>m. r = ScopingResponse m \<longrightarrow> sc_session_id m \<noteq> sid" by auto
  qed (use a in auto)
qed

lemma handle_research_session:
  "the_session (snd (handle_research st m)) sid =
     (if rs_session_id m = sid
      then (the_session st sid)\<lparr>research := Some m, geocoded_results := Some [],
             geocoding_count := Some 0, poi_results := Some [], poi_count := Some 0\<rparr>
      else the_session st sid)"
  by (cases "raw_search_results m") (auto simp: handle_research_def Let_def)

lemma deliver_scoping:
  "scoping (the_session (deliver st r) sid) =
     (case r of
        ScopingResponse m \<Rightarrow> if sc_session_id m = sid then Some m else scoping (the_session st sid)
      | _ \<Rightarrow> scoping (the_session st sid))"
  by (cases r)
    (auto simp: handle_scoping_def handle_research_session handle_general_def handle_mapbox_def
      handle_local_discovery_def Let_def split: option.splits sum.splits token.splits)

lemma deliver_research:
  "research (the_session (deliver st r) sid) =
     (case r of
        ResearchResponse m \<Rightarrow> if rs_session_id m = sid then Some m else research (the_session st sid)
      | _ \<Rightarrow> research (the_session st sid))"
  by (cases r)
    (auto simp: handle_scoping_def handle_research_session handle_general_def handle_mapbox_def
      handle_local_discovery_def Let_def split: option.splits sum.splits token.splits)

lemma deliver_general:
  "general (the_session (deliver st r) sid) =
     (case r of
        GeneralResponse m \<Rightarrow> if gn_session_id m = sid then Some m else general (the_session st sid)
      | _ \<Rightarrow> general (the_session st sid))"
  by (cases r)
    (auto simp: handle_scoping_def handle_research_session handle_general_def handle_mapbox_def
      handle_local_discovery_def Let_def split: option.splits sum.splits token.splits)

lemma foldl_deliver_est:
  assumes stable: "\<And>st r. cond (the_session st sid) \<Longrightarrow> cond (the_session (deliver st r) sid)"
    and est: "\<And>st r. E r \<Longrightarrow> cond (the_session (deliver st r) sid)"
  shows "cond (the_session st sid) \<or> (\<exists>r\<in>set b. E r) \<Longrightarrow>
         cond (the_session (foldl deliver st b) sid)"
proof (induction b arbitrary: st)
  case Nil
  then show ?case by simp
next
  case (Cons r b)
  from Cons.prems have "cond (the_session (deliver st r) sid) \<or> (\<exists>r\<in>set b. E r)"
    using stable est by auto
  from Cons.IH [OF this] show ?case by simp
qed

lemma wait_until_True:
  assumes stable: "\<And>st r. cond (the_session st sid) \<Longrightarrow> cond (the_session (deliver st r) sid)"
    and est: "\<And>st r. E r \<Longrightarrow> cond (the_session (deliver st r) sid)"
  shows "cond (the_session st sid) \<or> (\<exists>b\<in>set (take n sch). \<exists>r\<in>set b. E r) \<Longrightarrow>
         fst (wait_until (Suc n) cond sid st sch)"
proof (induction n arbitrary: st sch)
  case 0
  then show ?case by simp
next
  case (Suc n)
  show ?case
  proof (cases "cond (the_session st sid)")
    case True
    then show ?thesis by simp
  next
    case False
    with Suc.prems obtain b0 rest where sch: "sch = b0 # rest"
      and ex: "(\<exists>r\<in>set b0. E r) \<or> (\<exists>b\<in>set (take n rest). \<exists>r\<in>set b. E r)"
      by (cases sch) auto
    have "cond (the_session (foldl deliver st b0) sid) \<or> (\<exists>b\<in>set (take n rest). \<exists>r\<in>set b. E r)"
      using ex foldl_deliver_est [of cond sid E st b0, OF stable est] by blast
    from Suc.IH [OF this] False sch show ?thesis by (simp add: await_point_def)
  qed
qed

lemma wait_until_cond:
  "fst (wait_until n cond sid st sch) \<Longrightarrow>
   cond (the_session (fst (snd (wait_until n cond sid st sch))) sid)"
proof (induction n arbitrary: st sch)
  case 0
  then show ?case by simp
next
  case (Suc n)
  then show ?case
    by (cases "cond (the_session st sid)") (auto split: prod.splits)
qed

lemma take_drop_subset_general: "set (take n (drop k sch)) \<subseteq> set (take (n + k) sch)"
  by (metis take_drop set_drop_subset)

lemma take_drop_le:
  "k \<le> k' \<Longrightarrow> set (take n (drop k sch)) \<subseteq> set (take (n + k') sch)"
  using take_drop_subset_general [of n k sch] set_take_subset_set_take [of "n + k" "n + k'" sch]
  by auto

lemma scoping_found:
  assumes "\<exists>b\<in>set (take 60 sch). \<exists>m. ScopingResponse m \<in> set b \<and> sc_session_id m = sid"
  shows "fst (wait_until 60 (\<lambda>s. scoping s \<noteq> None) sid (fst (await_point st1 sch)) (drop 1 sch))"
proof -
  let ?E = "\<lambda>r. \<exists>m. r = ScopingResponse m \<and> sc_session_id m = sid"
  let ?cond = "\<lambda>s. scoping s \<noteq> None"
  have stable: "\<And>st r. ?cond (the_session st sid) \<Longrightarrow> ?cond (the_session (deliver st r) sid)"
    by (auto simp: deliver_scoping split: reply.splits)
  have est: "\<And>st r. ?E r \<Longrightarrow> ?cond (the_session (deliver st r) sid)"
    by (auto simp: deliver_scoping)
  from assms obtain b0 rest where sch: "sch = b0 # rest"
    and ex: "(\<exists>r\<in>set b0. ?E r) \<or> (\<exists>b\<in>set (take 59 rest). \<exists>r\<in>set b. ?E r)"
    by (cases sch) auto
  have "?cond (the_session (foldl deliver st1 b0) sid) \<or> (\<exists>b\<in>set (take 59 rest). \<exists>r\<in>set b. ?E r)"
    using ex foldl_deliver_est [of ?cond sid ?E st1 b0, OF stable est] by blast
  from wait_until_True [of ?cond sid ?E "foldl deliver st1 b0" 59 rest, OF stable est this] sch
  show ?thesis by (simp add: await_point_def)
qed

lemma scoping_forwarded:
  "(is_complete m \<longrightarrow> requirements m = Some reqs \<longrightarrow>
      \<not> (is_general_question m \<and> str_truthy (general_question m)) \<longrightarrow>
      sent_by s (deliver s (ScopingResponse m)) = [ResearchRequest reqs (sc_session_id m)]) \<and>
   (is_general_question m \<longrightarrow> str_truthy (general_question m) \<longrightarrow>
      sent_by s (deliver s (ScopingResponse m)) =
        [GeneralRequest (the (general_question m)) (sc_session_id m)])"
  by (auto simp: handle_scoping_def Let_def sent_by_def)

lemma wait_until_empty_batches:
  "\<not> cond (the_session st sid) \<Longrightarrow>
   wait_until n cond sid st (replicate n [] @ rest) = (False, st, rest)"
  by (induction n) (simp_all add: await_point_def)

lemma wait_until_False_state:
  assumes "\<And>st r. I st \<Longrightarrow> R r \<Longrightarrow> I (deliver st r)"
    and "\<And>st. I st \<Longrightarrow> \<not> cond (the_session st sid)"
  shows "I st \<Longrightarrow> \<forall>b\<in>set (take (n - 1) sch). \<forall>r\<in>set b. R r \<Longrightarrow>
         fst (snd (wait_until n cond sid st sch)) = foldl deliver st (concat (take n sch))"
proof (induction n arbitrary: st sch)
  case 0
  then show ?case by simp
next
  case (Suc n)
  from Suc.prems(1) assms(2) have c: "\<not> cond (the_session st sid)" by simp
  show ?case
  proof (cases sch)
    case Nil
    have "\<forall>b\<in>set (take (n - 1) []). \<forall>r\<in>set b. R r" by simp
    from Suc.IH [OF Suc.prems(1) this] c Nil show ?thesis by (simp add: await_point_def)
  next
    case (Cons b0 rest)
    show ?thesis
    proof (cases n)
      case 0
      with c Cons show ?thesis by (simp add: await_point_def)
    next
      case (Suc k)
      with Suc.prems(2) Cons have b0: "\<forall>r\<in>set b0. R r"
        and r: "\<forall>b\<in>set (take (n - 1) rest). \<forall>r\<in>set b. R r" by simp_all
      from foldl_deliver_inv [of I R, OF assms(1) Suc.prems(1) b0]
      have i: "I (foldl deliver st b0)" .
      from Suc.IH [OF i r] c Cons show ?thesis by (simp add: await_point_def)
    qed
  qed
qed

lemma scoping_timeout_state:
  assumes "\<forall>b\<in>set (take 60 sch). \<forall>r\<in>set b. \<forall>m. r = ScopingResponse m \<longrightarrow> sc_session_id m \<noteq> sid"
  shows "fst (snd (handle_chat st message sid sch)) =
     foldl deliver
       (send (ScopingRequest message sid)
          (update_session sid (\<lambda>s. s\<lparr>scoping := None, research := None\<rparr>)
             (ensure_session sid st)))
       (concat (take 61 sch))"
proof -
  let ?I = "\<lambda>st'. scoping (the_session st' sid) = None"
  let ?R = "\<lambda>r. \<forall>m. r = ScopingResponse m \<longrightarrow> sc_session_id m \<noteq> sid"
  let ?st1 = "send (ScopingRequest message sid)
                  (update_session sid (\<lambda>s. s\<lparr>scoping := None, research := None\<rparr>)
                     (ensure_session sid st))"
  let ?st2 = "fst (await_point ?st1 sch)"
  let ?w = "wait_until 60 (\<lambda>s. scoping s \<noteq> None) sid ?st2 (drop 1 sch)"
  have step: "\<And>st r. ?I st \<Longrightarrow> ?R r \<Longrightarrow> ?I (deliver st r)"
    by (rule deliver_scoping_none)
  have i1: "?I ?st1" by simp
  have "\<forall>b\<in>set (take 1 sch). \<forall>r\<in>set b. ?R r"
    using assms by (cases sch) auto
  from await_point_inv [of ?I ?R, OF step i1 this] have i2: "?I ?st2" .
  have r59: "\<forall>b\<in>set (take (60 - 1) (drop 1 sch)). \<forall>r\<in>set b. ?R r"
    using assms take_drop_subset [of 59 sch] by auto
  from wait_until_False [of ?I ?R "\<lambda>s. scoping s \<noteq> None" sid, OF step _ i2 r59]
  have f: "fst ?w = False" by simp
  from wait_until_False_state [of ?I ?R "\<lambda>s. scoping s \<noteq> None" sid, OF step _ i2 r59]
  have s3: "fst (snd ?w) = foldl deliver ?st2 (concat (take 60 (drop 1 sch)))" by simp
  have s2: "?st2 = foldl deliver ?st1 (concat (take 1 sch))"
    by (cases sch) (simp_all add: await_point_def)
  have "concat (take 1 sch) @ concat (take 60 (drop 1 sch)) = concat (take 61 sch)"
    by (cases sch) simp_all
  with s2 s3 have "fst (snd ?w) = foldl deliver ?st1 (concat (take 61 sch))"
    by (metis foldl_append)
  moreover from f have "fst (snd (handle_chat st message sid sch)) = fst (snd ?w)"
    by (simp add: handle_chat_unfold Let_def)
  ultimately show ?thesis by simp
qed

text \<open>
  C6 (amended). If no classification reply for the session is delivered in time for one
  of the 60 polls of the first stage, \<^verbatim>\<open>handle_chat\<close> answers with status \<^verbatim>\<open>error\<close> and
  the timeout message. The handler itself sends only the scoping request: the state it
  leaves is the one after clearing and sending the scoping request, with the replies of
  the first 61 batches handled in order. So, until it returns, no research and no general
  request for the session is sent provided none of these replies (the last sleep
  included) is a classification reply for the session, and no request of the session
  other than the scoping request is sent provided none of them is addressed to the
  session. The timeout cancels nothing: a classification reply for the session that is
  handled at any later time still makes the coordinator send the research request
  (complete, with requirements) or the general request (general question with a question
  text).
\<close>

theorem scoping_timeout:
  assumes "\<forall>b\<in>set (take 60 sch). \<forall>r\<in>set b. \<forall>m. r = ScopingResponse m \<longrightarrow> sc_session_id m \<noteq> sid"
  shows "fst (handle_chat st message sid sch) =
           error_response (Message ''Timeout waiting for scoping agent'') \<and>
         fst (snd (handle_chat st message sid sch)) =
           foldl deliver
             (send (ScopingRequest message sid)
                (update_session sid (\<lambda>s. s\<lparr>scoping := None, research := None\<rparr>)
                   (ensure_session sid st)))
             (concat (take 61 sch)) \<and>
         ((\<forall>b\<in>set (take 61 sch). \<forall>r\<in>set b. \<forall>m. r = ScopingResponse m \<longrightarrow> sc_session_id m \<noteq> sid) \<longrightarrow>
            (\<exists>rest. sent_by st (fst (snd (handle_chat st message sid sch))) =
                ScopingRequest message sid # rest \<and>
              (\<forall>m\<in>set rest. (\<forall>q. m \<noteq> ResearchRequest q sid) \<and> (\<forall>q. m \<noteq> GeneralRequest q sid)))) \<and>
         ((\<forall>b\<in>set (take 61 sch). \<forall>r\<in>set b. \<not> reply_for sid r) \<longrightarrow>
            (\<exists>rest. sent_by st (fst (snd (handle_chat st message sid sch))) =
                ScopingRequest message sid # rest \<and>
              (\<forall>m\<in>set rest. \<not> request_for sid m))) \<and>
         (\<forall>s m reqs. sc_session_id m = sid \<longrightarrow> is_complete m \<longrightarrow> requirements m = Some reqs \<longrightarrow>
            \<not> (is_general_question m \<and> str_truthy (general_question m)) \<longrightarrow>
            sent_by s (deliver s (ScopingResponse m)) = [ResearchRequest reqs sid]) \<and>
         (\<forall>s m. sc_session_id m = sid \<longrightarrow> is_general_question m \<longrightarrow>
            str_truthy (general_question m) \<longrightarrow>
            sent_by s (deliver s (ScopingResponse m)) = [GeneralRequest (the (general_question m)) sid])"
proof -
  note a = scoping_timeout_until_return [OF assms, of st message]
  note a1 = a [THEN conjunct1]
  note a2 = a [THEN conjunct2, THEN conjunct1]
  note a3 = a [THEN conjunct2, THEN conjunct2]
  note d = scoping_timeout_state [OF assms, of st message]
  have b: "\<forall>s m reqs. sc_session_id m = sid \<longrightarrow> is_complete m \<longrightarrow> requirements m = Some reqs \<longrightarrow>
            \<not> (is_general_question m \<and> str_truthy (general_question m)) \<longrightarrow>
            sent_by s (deliver s (ScopingResponse m)) = [ResearchRequest reqs sid]"
    using scoping_forwarded by blast
  have c: "\<forall>s m. sc_session_id m = sid \<longrightarrow> is_general_question m \<longrightarrow>
            str_truthy (general_question m) \<longrightarrow>
            sent_by s (deliver s (ScopingResponse m)) = [GeneralRequest (the (general_question m)) sid]"
    using scoping_forwarded by blast
  from a1 d a2 a3 b c show ?thesis by (intro conjI)
qed

theorem scoping_timeout_witness:
  "fst (handle_chat initial_state ''hello'' ''s'' [[ScopingResponse (search_scoping ''t'')]]) =
     error_response (Message ''Timeout waiting for scoping agent'') \<and>
   hd (sent_by initial_state
        (fst (snd (handle_chat initial_state ''hello'' ''s''
           [[ScopingResponse (search_scoping ''t'')]])))) = ScopingRequest ''hello'' ''s'' \<and>
   list_all (\<lambda>m. \<not> request_for ''s'' m)
     (tl (sent_by initial_state
        (fst (snd (handle_chat initial_state ''hello'' ''s''
           [[ScopingResponse (search_scoping ''t'')]]))))) \<and>
   sent_by initial_state (deliver initial_state (ScopingResponse (search_scoping ''s''))) =
     [ResearchRequest requirements_oakland ''s''] \<and>
   sent_by initial_state (deliver initial_state (ScopingResponse (general_scoping ''s''))) =
     [GeneralRequest ''How are the schools in Oakland?'' ''s'']"
proof -
  let ?sch = "[[ScopingResponse (search_scoping ''t'')]]"
  have h1: "\<forall>b\<in>set (take 60 ?sch). \<forall>r\<in>set b. \<forall>m. r = ScopingResponse m \<longrightarrow> sc_session_id m \<noteq> ''s''"
    by (simp add: search_scoping_def)
  have h2: "\<forall>b\<in>set (take 61 ?sch). \<forall>r\<in>set b. \<not> reply_for ''s'' r"
    by (simp add: search_scoping_def)
  note all = scoping_timeout [OF h1, of initial_state "''hello''"]
  from all h2 obtain rest where r:
    "fst (handle_chat initial_state ''hello'' ''s'' ?sch) =
       error_response (Message ''Timeout waiting for scoping agent'')"
    "sent_by initial_state (fst (snd (handle_chat initial_state ''hello'' ''s'' ?sch))) =
       ScopingRequest ''hello'' ''s'' # rest"
    "\<forall>m\<in>set rest. \<not> request_for ''s'' m" by blast
  have s1: "sc_session_id (search_scoping ''s'') = ''s''" "is_complete (search_scoping ''s'')"
    "requirements (search_scoping ''s'') = Some requirements_oakland"
    "\<not> (is_general_question (search_scoping ''s'') \<and>
        str_truthy (general_question (search_scoping ''s'')))"
    by (simp_all add: search_scoping_def)
  have s2: "sc_session_id (general_scoping ''s'') = ''s''" "is_general_question (general_scoping ''s'')"
    "str_truthy (general_question (general_scoping ''s''))"
    by (simp_all add: general_scoping_def str_truthy_def)
  from all have fwd:
    "\<forall>s m reqs. sc_session_id m = ''s'' \<longrightarrow> is_complete m \<longrightarrow> requirements m = Some reqs \<longrightarrow>
        \<not> (is_general_question m \<and> str_truthy (general_question m)) \<longrightarrow>
        sent_by s (deliver s (ScopingResponse m)) = [ResearchRequest reqs ''s'']"
    "\<forall>s m. sc_session_id m = ''s'' \<longrightarrow> is_general_question m \<longrightarrow>
        str_truthy (general_question m) \<longrightarrow>
        sent_by s (deliver s (ScopingResponse m)) = [GeneralRequest (the (general_question m)) ''s'']"
    by blast+
  from fwd(1) s1 have f1: "sent_by initial_state (deliver initial_state
      (ScopingResponse (search_scoping ''s''))) = [ResearchRequest requirements_oakland ''s'']"
    by blast
  from fwd(2) s2 have f2: "sent_by initial_state (deliver initial_state
      (ScopingResponse (general_scoping ''s''))) =
      [GeneralRequest (the (general_question (general_scoping ''s''))) ''s'']"
    by blast
  have q: "the (general_question (general_scoping ''s'')) = ''How are the schools in Oakland?''"
    by (simp add: general_scoping_def)
  from r f1 f2 show ?thesis unfolding q by (simp add: list_all_iff)
qed

text \<open>
  C6 as stated fails: with the classification reply delivered only after the 61 batches
  of the first stage, the handler returns the timeout error, and handling that late reply
  then sends the research request for the session.
\<close>

theorem scoping_timeout_counterexample:
  "fst (handle_chat initial_state ''2 bed home in Oakland'' ''s''
          ([] # replicate 60 [] @ [[ScopingResponse (search_scoping ''s'')]])) =
     error_response (Message ''Timeout waiting for scoping agent'') \<and>
   snd (snd (handle_chat initial_state ''2 bed home in Oakland'' ''s''
          ([] # replicate 60 [] @ [[ScopingResponse (search_scoping ''s'')]]))) =
     [[ScopingResponse (search_scoping ''s'')]] \<and>
   sent_by initial_state
     (foldl deliver
        (fst (snd (handle_chat initial_state ''2 bed home in Oakland'' ''s''
           ([] # replicate 60 [] @ [[ScopingResponse (search_scoping ''s'')]]))))
        [ScopingResponse (search_scoping ''s'')]) =
     [ScopingRequest ''2 bed home in Oakland'' ''s'',
      ResearchRequest requirements_oakland ''s'']"
proof -
  let ?msg = "''2 bed home in Oakland''"
  let ?late = "[[ScopingResponse (search_scoping ''s'')]]"
  let ?st1 = "send (ScopingRequest ?msg ''s'')
                  (update_session ''s'' (\<lambda>s. s\<lparr>scoping := None, research := None\<rparr>)
                     (ensure_session ''s'' initial_state))"
  have a: "await_point ?st1 ([] # replicate 60 [] @ ?late) = (?st1, replicate 60 [] @ ?late)"
    by (simp add: await_point_def)
  have w: "wait_until 60 (\<lambda>s. scoping s \<noteq> None) ''s'' ?st1 (replicate 60 [] @ ?late) =
      (False, ?st1, ?late)"
    by (rule wait_until_empty_batches) simp
  have h: "handle_chat initial_state ?msg ''s'' ([] # replicate 60 [] @ ?late) =
      (error_response (Message ''Timeout waiting for scoping agent''), ?st1, ?late)"
    unfolding handle_chat_def Let_def a prod.case w by simp
  have o: "outbox ?st1 = [ScopingRequest ?msg ''s'']"
    by (simp add: initial_state_def)
  have "sent_by initial_state (foldl deliver ?st1 [ScopingResponse (search_scoping ''s'')]) =
      [ScopingRequest ?msg ''s'', ResearchRequest requirements_oakland ''s'']"
    using o by (simp add: sent_by_def handle_scoping_def search_scoping_def Let_def
        str_truthy_def initial_state_def)
  with h show ?thesis by simp
qed

lemma after_scoping_search:
  assumes "\<not> is_general_question m" and "is_complete m" and "requirements m = Some reqs"
  shows "after_scoping m sid st sch = search_path reqs sid st sch"
  using assms by (simp add: after_scoping_def)

lemma search_path_timeout:
  assumes "research (the_session (fst (snd (wait_until 60 (\<lambda>s. research s \<noteq> None) sid st sch))) sid) = None"
  shows "fst (search_path reqs sid st sch) =
           error_response (Message ''Research agent did not respond in time'')"
proof -
  obtain b st1 sch1 where
    w: "wait_until 60 (\<lambda>s. research s \<noteq> None) sid st sch = (b, st1, sch1)"
    by (cases "wait_until 60 (\<lambda>s. research s \<noteq> None) sid st sch")
  with assms have "research (the_session st1 sid) = None" by simp
  then show ?thesis unfolding search_path_def w by simp
qed

lemma handle_chat_found:
  assumes "fst (wait_until 60 (\<lambda>s. scoping s \<noteq> None) sid
             (fst (await_point (send (ScopingRequest message sid)
                  (update_session sid (\<lambda>s. s\<lparr>scoping := None, research := None\<rparr>)
                     (ensure_session sid st))) sch)) (drop 1 sch))"
  shows "\<exists>m st3 k. k \<le> 60 \<and>
           st3 = fst (snd (wait_until 60 (\<lambda>s. scoping s \<noteq> None) sid
             (fst (await_point (send (ScopingRequest message sid)
                  (update_session sid (\<lambda>s. s\<lparr>scoping := None, research := None\<rparr>)
                     (ensure_session sid st))) sch)) (drop 1 sch))) \<and>
           scoping (the_session st3 sid) = Some m \<and>
           handle_chat st message sid sch = after_scoping m sid st3 (drop (Suc k) sch)"
proof -
  let ?st2 = "fst (await_point (send (ScopingRequest message sid)
                  (update_session sid (\<lambda>s. s\<lparr>scoping := None, research := None\<rparr>)
                     (ensure_session sid st))) sch)"
  let ?w = "wait_until 60 (\<lambda>s. scoping s \<noteq> None) sid ?st2 (drop 1 sch)"
  from wait_until_cond [OF assms] obtain m where m: "scoping (the_session (fst (snd ?w)) sid) = Some m"
    by auto
  from wait_until_sched [of 60 "\<lambda>s. scoping s \<noteq> None" sid ?st2 "drop 1 sch"]
  obtain k where k: "k \<le> 60" "snd (snd ?w) = drop k (drop 1 sch)" by blast
  then have "snd (snd ?w) = drop (Suc k) sch" by simp
  with assms m have "handle_chat st message sid sch = after_scoping m sid (fst (snd ?w)) (drop (Suc k) sch)"
    by (simp add: handle_chat_unfold Let_def)
  with k(1) m show ?thesis by blast
qed

text \<open>
  C7. If a classification reply for the session is delivered in time for one of the 60
  polls of the first stage, every classification reply delivered for the session marks a
  complete property search with requirements (and not a general question), and no
  research reply for the session is delivered in any of the at most 121 batches the
  handler can consume, then \<^verbatim>\<open>handle_chat\<close> answers with status \<^verbatim>\<open>error\<close> and the
  message that the research agent did not respond in time.
\<close>

theorem research_timeout:
  assumes a1: "\<forall>b\<in>set (take 121 sch). \<forall>r\<in>set b. \<forall>m. r = ResearchResponse m \<longrightarrow> rs_session_id m \<noteq> sid"
    and a2: "\<forall>b\<in>set (take 121 sch). \<forall>r\<in>set b. \<forall>m. r = ScopingResponse m \<longrightarrow> sc_session_id m = sid \<longrightarrow>
               is_complete m \<and> requirements m \<noteq> None \<and> \<not> is_general_question m"
    and a3: "\<exists>b\<in>set (take 60 sch). \<exists>m. ScopingResponse m \<in> set b \<and> sc_session_id m = sid"
  shows "fst (handle_chat st message sid sch) =
           error_response (Message ''Research agent did not respond in time'')"
proof -
  let ?PS = "\<lambda>m. is_complete m \<and> requirements m \<noteq> None \<and> \<not> is_general_question m"
  let ?I = "\<lambda>st'. research (the_session st' sid) = None \<and>
              (\<forall>m. scoping (the_session st' sid) = Some m \<longrightarrow> ?PS m)"
  let ?R = "\<lambda>r. (\<forall>m. r = ResearchResponse m \<longrightarrow> rs_session_id m \<noteq> sid) \<and>
              (\<forall>m. r = ScopingResponse m \<longrightarrow> sc_session_id m = sid \<longrightarrow> ?PS m)"
  let ?st1 = "send (ScopingRequest message sid)
                  (update_session sid (\<lambda>s. s\<lparr>scoping := None, research := None\<rparr>)
                     (ensure_session sid st))"
  let ?st2 = "fst (await_point ?st1 sch)"
  let ?w = "wait_until 60 (\<lambda>s. scoping s \<noteq> None) sid ?st2 (drop 1 sch)"
  have all: "\<forall>b\<in>set (take 121 sch). \<forall>r\<in>set b. ?R r" using a1 a2 by blast
  have step: "\<And>st' r. ?I st' \<Longrightarrow> ?R r \<Longrightarrow> ?I (deliver st' r)"
  proof -
    fix st' r assume i: "?I st'" and r: "?R r"
    show "?I (deliver st' r)"
      unfolding deliver_scoping deliver_research using i r by (cases r) simp_all
  qed
  have i1: "?I ?st1" by simp
  have s1: "set (take 1 sch) \<subseteq> set (take 121 sch)"
    by (rule set_take_subset_set_take) simp
  have "\<forall>b\<in>set (take 1 sch). \<forall>r\<in>set b. ?R r"
    using all s1 by blast
  from await_point_inv [of ?I ?R, OF step i1 this] have i2: "?I ?st2" .
  have s2: "set (take 60 (drop 1 sch)) \<subseteq> set (take 121 sch)"
    using take_drop_le [of 1 61 60 sch] by simp
  have "\<forall>b\<in>set (take 60 (drop 1 sch)). \<forall>r\<in>set b. ?R r"
    using all s2 by blast
  from wait_until_inv [of ?I ?R, OF step i2 this] have i3: "?I (fst (snd ?w))" .
  from handle_chat_found [OF scoping_found [OF a3]] obtain m k where
    k: "k \<le> 60" and m: "scoping (the_session (fst (snd ?w)) sid) = Some m"
    and h: "handle_chat st message sid sch = after_scoping m sid (fst (snd ?w)) (drop (Suc k) sch)"
    by blast
  from i3 m have ps: "?PS m" by blast
  then obtain reqs where reqs: "requirements m = Some reqs" by auto
  from ps reqs have as: "after_scoping m sid (fst (snd ?w)) (drop (Suc k) sch) =
      search_path reqs sid (fst (snd ?w)) (drop (Suc k) sch)"
    by (intro after_scoping_search) auto
  have s3: "set (take 60 (drop (Suc k) sch)) \<subseteq> set (take 121 sch)"
    using take_drop_le [of "Suc k" 61 60 sch] k by simp
  have "\<forall>b\<in>set (take 60 (drop (Suc k) sch)). \<forall>r\<in>set b. ?R r"
    using all s3 by blast
  from wait_until_inv [of ?I ?R, OF step i3 this]
  have "research (the_session (fst (snd (wait_until 60 (\<lambda>s. research s \<noteq> None) sid
          (fst (snd ?w)) (drop (Suc k) sch)))) sid) = None" by blast
  from search_path_timeout [OF this, of reqs]
  have "fst (search_path reqs sid (fst (snd ?w)) (drop (Suc k) sch)) =
      error_response (Message ''Research agent did not respond in time'')" .
  then show ?thesis unfolding h as .
qed

theorem research_timeout_witness:
  "fst (handle_chat initial_state ''2 bed home in Oakland under 900k'' ''s''
          [[ScopingResponse (search_scoping ''s'')]]) =
     error_response (Message ''Research agent did not respond in time'')"
proof -
  let ?sch = "[[ScopingResponse (search_scoping ''s'')]]"
  have h1: "\<forall>b\<in>set (take 121 ?sch). \<forall>r\<in>set b. \<forall>m. r = ResearchResponse m \<longrightarrow> rs_session_id m \<noteq> ''s''"
    by simp
  have h2: "\<forall>b\<in>set (take 121 ?sch). \<forall>r\<in>set b. \<forall>m. r = ScopingResponse m \<longrightarrow> sc_session_id m = ''s'' \<longrightarrow>
               is_complete m \<and> requirements m \<noteq> None \<and> \<not> is_general_question m"
    by (simp add: search_scoping_def)
  have h3: "\<exists>b\<in>set (take 60 ?sch). \<exists>m. ScopingResponse m \<in> set b \<and> sc_session_id m = ''s''"
    by (simp add: search_scoping_def)
  from research_timeout [OF h1 h2 h3] show ?thesis .
qed

lemma wait_until_now:
  "0 < n \<Longrightarrow> cond (the_session st sid) \<Longrightarrow> wait_until n cond sid st sch = (True, st, sch)"
  by (cases n) simp_all

lemma wait_until_step:
  "0 < n \<Longrightarrow> \<not> cond (the_session st sid) \<Longrightarrow>
   wait_until n cond sid st sch =
     wait_until (n - 1) cond sid (fst (await_point st sch)) (snd (await_point st sch))"
  by (cases n) (simp_all split: prod.splits)

lemma handle_scoping_fields:
  "scoping (the_session (handle_scoping st m) sid) =
     (if sc_session_id m = sid then Some m else scoping (the_session st sid))"
  "general (the_session (handle_scoping st m) sid) = general (the_session st sid)"
  by (simp_all add: handle_scoping_def Let_def split: option.splits)

lemma after_scoping_general_now:
  assumes "is_general_question sc" and "general (the_session st sid) = Some g"
  shows "after_scoping sc sid st sch = (success_response (Conversation None [] (answer g) 0), st, sch)"
proof -
  have "wait_until 60 (\<lambda>s. general s \<noteq> None) sid st sch = (True, st, sch)"
    using assms(2) by (intro wait_until_now) simp_all
  with assms show ?thesis by (simp add: after_scoping_def)
qed

lemma handle_chat_no_replies:
  "fst (snd (handle_chat st message sid [])) =
     send (ScopingRequest message sid)
       (update_session sid (\<lambda>s. s\<lparr>scoping := None, research := None\<rparr>)
          (ensure_session sid st))"
proof -
  let ?st1 = "send (ScopingRequest message sid)
                  (update_session sid (\<lambda>s. s\<lparr>scoping := None, research := None\<rparr>)
                     (ensure_session sid st))"
  let ?w = "wait_until 60 (\<lambda>s. scoping s \<noteq> None) sid ?st1 []"
  have step: "\<And>st' r. st' = ?st1 \<Longrightarrow> False \<Longrightarrow> deliver st' r = ?st1" by simp
  have i: "fst (snd ?w) = ?st1"
    by (rule wait_until_inv [of "\<lambda>s. s = ?st1" "\<lambda>r. False", OF step]) simp_all
  have f: "fst ?w = False \<and> snd (snd ?w) = drop 60 []"
    by (rule wait_until_False [of "\<lambda>s. s = ?st1" "\<lambda>r. False", OF step]) simp_all
  have a: "fst (await_point ?st1 []) = ?st1" by (simp add: await_point_def)
  from i f a show ?thesis by (simp add: handle_chat_unfold Let_def)
qed

lemma handle_chat_scoping_second:
  assumes "sc_session_id sc = sid"
  shows "handle_chat st message sid ([] # [ScopingResponse sc] # rest) =
     after_scoping sc sid
       (handle_scoping (send (ScopingRequest message sid)
          (update_session sid (\<lambda>s. s\<lparr>scoping := None, research := None\<rparr>)
             (ensure_session sid st))) sc) rest"
proof -
  let ?st1 = "send (ScopingRequest message sid)
                  (update_session sid (\<lambda>s. s\<lparr>scoping := None, research := None\<rparr>)
                     (ensure_session sid st))"
  let ?st2 = "handle_scoping ?st1 sc"
  have a: "await_point ?st1 ([] # [ScopingResponse sc] # rest) = (?st1, [ScopingResponse sc] # rest)"
    by (simp add: await_point_def)
  have a2: "await_point ?st1 ([ScopingResponse sc] # rest) = (?st2, rest)"
    by (simp add: await_point_def)
  have sc: "scoping (the_session ?st2 sid) = Some sc"
    using assms by (simp add: handle_scoping_fields)
  have w2: "wait_until 59 (\<lambda>s. scoping s \<noteq> None) sid ?st2 rest = (True, ?st2, rest)"
    using sc by (intro wait_until_now) simp_all
  have "wait_until 60 (\<lambda>s. scoping s \<noteq> None) sid ?st1 ([ScopingResponse sc] # rest) =
      wait_until (60 - 1) (\<lambda>s. scoping s \<noteq> None) sid
        (fst (await_point ?st1 ([ScopingResponse sc] # rest)))
        (snd (await_point ?st1 ([ScopingResponse sc] # rest)))"
    by (rule wait_until_step) simp_all
  with a2 w2 have w: "wait_until 60 (\<lambda>s. scoping s \<noteq> None) sid ?st1 ([ScopingResponse sc] # rest) =
      (True, ?st2, rest)" by simp
  show ?thesis
    unfolding handle_chat_def Let_def a prod.case w using sc by simp
qed

lemma stale_general_returned_later:
  assumes "general (the_session st sid) = Some g" and "is_general_question sc"
    and "sc_session_id sc = sid"
  shows "fst (handle_chat st message sid ([] # [ScopingResponse sc] # rest)) =
           success_response (Conversation None [] (answer g) 0) \<and>
         snd (snd (handle_chat st message sid ([] # [ScopingResponse sc] # rest))) = rest"
proof -
  let ?st2 = "handle_scoping (send (ScopingRequest message sid)
          (update_session sid (\<lambda>s. s\<lparr>scoping := None, research := None\<rparr>)
             (ensure_session sid st))) sc"
  have g: "general (the_session ?st2 sid) = Some g"
    using assms(1) by (simp add: handle_scoping_fields)
  from after_scoping_general_now [OF assms(2) g, of rest] handle_chat_scoping_second [OF assms(3)]
  show ?thesis by simp
qed

lemma fresh_general_returned:
  assumes "general (the_session st sid) = None" and "is_general_question sc"
    and "sc_session_id sc = sid" and "gn_session_id g = sid"
  shows "fst (handle_chat st message sid ([] # [ScopingResponse sc] # [GeneralResponse g] # rest)) =
           success_response (Conversation None [] (answer g) 0)"
proof -
  let ?st2 = "handle_scoping (send (ScopingRequest message sid)
          (update_session sid (\<lambda>s. s\<lparr>scoping := None, research := None\<rparr>)
             (ensure_session sid st))) sc"
  let ?st3 = "handle_general ?st2 g"
  have g0: "general (the_session ?st2 sid) = None"
    using assms(1) by (simp add: handle_scoping_fields)
  have g1: "general (the_session ?st3 sid) = Some g"
    using assms(4) by (simp add: handle_general_def)
  have a: "await_point ?st2 ([GeneralResponse g] # rest) = (?st3, rest)"
    by (simp add: await_point_def)
  have w1: "wait_until 59 (\<lambda>s. general s \<noteq> None) sid ?st3 rest = (True, ?st3, rest)"
    using g1 by (intro wait_until_now) simp_all
  have "wait_until 60 (\<lambda>s. general s \<noteq> None) sid ?st2 ([GeneralResponse g] # rest) =
      wait_until (60 - 1) (\<lambda>s. general s \<noteq> None) sid
        (fst (await_point ?st2 ([GeneralResponse g] # rest)))
        (snd (await_point ?st2 ([GeneralResponse g] # rest)))"
    using g0 by (intro wait_until_step) simp_all
  with a w1 have w: "wait_until 60 (\<lambda>s. general s \<noteq> None) sid ?st2 ([GeneralResponse g] # rest) =
      (True, ?st3, rest)" by simp
  have "after_scoping sc sid ?st2 ([GeneralResponse g] # rest) =
      (success_response (Conversation None [] (answer g) 0), ?st3, rest)"
    unfolding after_scoping_def using assms(2) w g1 by simp
  with handle_chat_scoping_second [OF assms(3), of st message "[GeneralResponse g] # rest"]
  show ?thesis by simp
qed

text \<open>
  C10. A call of \<^verbatim>\<open>handle_chat\<close> clears only the \<^verbatim>\<open>scoping\<close> and \<^verbatim>\<open>research\<close> entries
  of the session: with no reply delivered, the session it leaves is the one it found with
  these two entries removed, so the stored general answer, the geocoded and POI results
  and both counters are as before. Hence, on a session that stores a general answer, a
  request whose classification reply (delivered at the first poll) marks a general
  question returns the stored answer and consumes no further batch of the schedule: it
  does not wait for the new answer.
\<close>

theorem only_scoping_and_research_cleared:
  "the_session (fst (snd (handle_chat st message sid []))) sid =
     (the_session st sid)\<lparr>scoping := None, research := None\<rparr> \<and>
   (general (the_session st sid) = Some g \<longrightarrow> is_general_question sc \<longrightarrow>
    sc_session_id sc = sid \<longrightarrow>
      fst (handle_chat st message sid ([] # [ScopingResponse sc] # rest)) =
        success_response (Conversation None [] (answer g) 0) \<and>
      snd (snd (handle_chat st message sid ([] # [ScopingResponse sc] # rest))) = rest)"
  using stale_general_returned_later [of st sid g sc message rest]
  by (simp add: handle_chat_no_replies)

theorem only_scoping_and_research_cleared_witness:
  "general (the_session state_with_answer ''s'') = Some (general_reply ''s'' ''Old answer'') \<and>
   is_general_question (general_scoping ''s'') \<and>
   sc_session_id (general_scoping ''s'') = ''s'' \<and>
   fst (handle_chat state_with_answer ''And the parks?'' ''s''
          [[], [ScopingResponse (general_scoping ''s'')]]) =
     success_response (Conversation None [] ''Old answer'' 0) \<and>
   snd (snd (handle_chat state_with_answer ''And the parks?'' ''s''
          [[], [ScopingResponse (general_scoping ''s'')]])) = []"
proof -
  have h1: "general (the_session state_with_answer ''s'') = Some (general_reply ''s'' ''Old answer'')"
    by (simp add: state_with_answer_def)
  have h2: "is_general_question (general_scoping ''s'')" by (simp add: general_scoping_def)
  have h3: "sc_session_id (general_scoping ''s'') = ''s''" by (simp add: general_scoping_def)
  from only_scoping_and_research_cleared [of state_with_answer "''And the parks?''" "''s''"
      "general_reply ''s'' ''Old answer''" "general_scoping ''s''" "[]"] h1 h2 h3
  show ?thesis by (simp add: general_reply_def)
qed

text \<open>
  C8 fails on a session that already stores a general answer. The session holds
  \<^verbatim>\<open>Old answer\<close>; a new general question is classified at the first poll and its
  answer \<^verbatim>\<open>New answer\<close> is delivered at the next one, well within the wait. The handler
  returns \<^verbatim>\<open>Old answer\<close> and leaves the batch with the new answer unread. From the
  empty store the same schedule returns \<^verbatim>\<open>New answer\<close>.
\<close>

theorem stale_answer_returned_for_new_question:
  "fst (handle_chat state_with_answer ''And the parks?'' ''s''
          [[], [ScopingResponse (general_scoping ''s'')],
           [GeneralResponse (general_reply ''s'' ''New answer'')]]) =
     success_response (Conversation None [] ''Old answer'' 0) \<and>
   snd (snd (handle_chat state_with_answer ''And the parks?'' ''s''
          [[], [ScopingResponse (general_scoping ''s'')],
           [GeneralResponse (general_reply ''s'' ''New answer'')]])) =
     [[GeneralResponse (general_reply ''s'' ''New answer'')]] \<and>
   fst (handle_chat initial_state ''And the parks?'' ''s''
          [[], [ScopingResponse (general_scoping ''s'')],
           [GeneralResponse (general_reply ''s'' ''New answer'')]]) =
     success_response (Conversation None [] ''New answer'' 0)"
proof -
  have h1: "general (the_session state_with_answer ''s'') = Some (general_reply ''s'' ''Old answer'')"
    by (simp add: state_with_answer_def)
  have h0: "general (the_session initial_state ''s'') = None"
    by (simp add: initial_state_def the_session_def empty_session_def)
  have h2: "is_general_question (general_scoping ''s'')" by (simp add: general_scoping_def)
  have h3: "sc_session_id (general_scoping ''s'') = ''s''" by (simp add: general_scoping_def)
  have h4: "gn_session_id (general_reply ''s'' ''New answer'') = ''s''"
    by (simp add: general_reply_def)
  from stale_general_returned_later [OF h1 h2 h3] fresh_general_returned [OF h0 h2 h3 h4]
  show ?thesis by (simp add: general_reply_def)
qed

section \<open>The skipped candidate and the orchestrator\<close>














end
